theory Spec2Isabelle
  imports Main
begin

section \<open>Values shared by the client and the engine\<close>

text \<open>
  Decoded JSON, as Python's \<open>json\<close> module returns it. \<open>JNull\<close> is Python's \<open>None\<close>;
  an object is the association list of its decoded dict. Numbers are integers (no
  float is inspected by the code below).
\<close>

datatype json =
    JNull
  | JBool bool
  | JInt int
  | JStr string
  | JArr "json list"
  | JObj "(string \<times> json) list"

text \<open>\<open>d.get(k, default)\<close> on a dict.\<close>

definition dict_get :: "(string \<times> json) list \<Rightarrow> string \<Rightarrow> json \<Rightarrow> json" where
  "dict_get d k dflt = (case map_of d k of None \<Rightarrow> dflt | Some v \<Rightarrow> v)"

text \<open>Python truthiness, as used by \<open>if execution_id:\<close>.\<close>

fun truthy :: "json \<Rightarrow> bool" where
  "truthy JNull = False"
| "truthy (JBool b) = b"
| "truthy (JInt i) = (i \<noteq> 0)"
| "truthy (JStr s) = (s \<noteq> [])"
| "truthy (JArr xs) = (xs \<noteq> [])"
| "truthy (JObj d) = (d \<noteq> [])"

text \<open>
  The exceptions the code distinguishes: \<open>asyncio.TimeoutError\<close>, and any other
  \<open>Exception\<close> with its \<open>str(e)\<close>.
\<close>

datatype exn = TimeoutError | OtherError string

fun str_exn :: "exn \<Rightarrow> string" where
  "str_exn TimeoutError = []"
| "str_exn (OtherError m) = m"

text \<open>The message of the \<open>AttributeError\<close> raised by \<open>.get\<close> on a value that is no dict.\<close>

fun type_name :: "json \<Rightarrow> string" where
  "type_name JNull = ''NoneType''"
| "type_name (JBool b) = ''bool''"
| "type_name (JInt i) = ''int''"
| "type_name (JStr s) = ''str''"
| "type_name (JArr xs) = ''list''"
| "type_name (JObj d) = ''dict''"

definition no_get :: "json \<Rightarrow> exn" where
  "no_get v = OtherError ([CHR 0x27] @ type_name v @ [CHR 0x27] @ '' object has no attribute '' @ [CHR 0x27] @ ''get'' @ [CHR 0x27])"

section \<open>MCP client framework (\<open>src/project/src/MCP/client_framework.py\<close>)\<close>

datatype ServiceStatus = HEALTHY | DEGRADED | UNHEALTHY | UNKNOWN

text \<open>Times are milliseconds; \<open>timeout\<close> is in seconds, as in the source.\<close>

record ServiceEndpoint =
  name :: string
  url :: string
  health_check_url :: string
  status :: ServiceStatus
  last_check :: int
  response_time :: int
  error_count :: int
  max_errors :: int
  timeout :: int

text \<open>
  The \<open>error\<close> strings of the source, one constructor per f-string, the interpolated
  values as arguments:
  \<^item> \<open>ServiceNotFound n\<close>: \<open>f"Service '{n}' not found"\<close>
  \<^item> \<open>ServiceUnhealthy n\<close>: \<open>f"Service '{n}' is unhealthy"\<close>
  \<^item> \<open>NoExecutionId\<close>: \<open>"No execution ID returned"\<close>
  \<^item> \<open>HttpError c t\<close>: \<open>f"HTTP {c}: {t}"\<close>
  \<^item> \<open>RequestTimedOut n\<close>: \<open>f"Request to '{n}' timed out"\<close>
  \<^item> \<open>RequestFailed n m\<close>: \<open>f"Request to '{n}' failed: {m}"\<close>
  \<^item> \<open>ExecutionTimedOut x\<close>: \<open>f"Execution {x} timed out"\<close>
  \<^item> \<open>RemoteError v\<close>: \<open>status_data.get('error', 'Execution failed')\<close>, the value \<open>v\<close>
    when it is not \<open>None\<close>
  \<^item> \<open>ExecutionCancelled\<close>: \<open>"Execution cancelled"\<close>
  \<^item> \<open>StatusHttpError c\<close>: \<open>f"Failed to get status: HTTP {c}"\<close>
  \<^item> \<open>StatusCheckFailed m\<close>: \<open>f"Status check failed: {m}"\<close>
\<close>

datatype call_error =
    ServiceNotFound string
  | ServiceUnhealthy string
  | NoExecutionId
  | HttpError nat string
  | RequestTimedOut string
  | RequestFailed string string
  | ExecutionTimedOut json
  | RemoteError json
  | ExecutionCancelled
  | StatusHttpError nat
  | StatusCheckFailed string

record MCPCallResult =
  success :: bool
  data :: json
  error :: "call_error option"
  execution_id :: json
  service_name :: "string option"
  tool_name :: "string option"
  duration :: int
  metadata :: json

text \<open>The constructor call \<open>MCPCallResult(success=.., data=.., error=.., execution_id=..)\<close>
  with the other fields at their defaults.\<close>

definition MCPCallResult_new :: "bool \<Rightarrow> json \<Rightarrow> call_error option \<Rightarrow> json \<Rightarrow> MCPCallResult" where
  "MCPCallResult_new ok d e x =
     \<lparr>success = ok, data = d, error = e, execution_id = x,
      service_name = None, tool_name = None, duration = 0, metadata = JObj []\<rparr>"

subsection \<open>The network\<close>

text \<open>
  A response as the code reads it: the status, what \<open>await response.json()\<close> gives
  (a decoded value or an exception) and what \<open>await response.text()\<close> gives.
\<close>

record http_response =
  status_code :: nat
  body_json :: "exn + json"
  body_text :: "exn + string"

text \<open>The three requests the client sends: \<open>POST {url}/execute\<close> with its JSON body and
  total timeout, \<open>GET {url}/status/{execution_id}\<close>, and \<open>GET health_check_url\<close> with
  its total timeout.\<close>

datatype request =
    POST_execute string json int
  | GET_status string json
  | GET_health string int

record reply =
  latency :: nat
  outcome :: "exn + http_response"

text \<open>
  The world outside the process: the clock read by \<open>time.time()\<close>, the reply the
  network gives to the n-th request, the requests sent so far, and the waits the
  backoff decorator draws.
\<close>

record network =
  clock :: int
  replies :: "nat \<Rightarrow> reply"
  sent :: "request list"
  backoff_wait :: "nat \<Rightarrow> nat"

definition sleep :: "nat \<Rightarrow> network \<Rightarrow> network" where
  "sleep ms net = net\<lparr>clock := clock net + int ms\<rparr>"

definition http_request :: "request \<Rightarrow> network \<Rightarrow> (exn + http_response) \<times> network" where
  "http_request rq net =
     (let r = replies net (length (sent net))
      in (outcome r, net\<lparr>clock := clock net + int (latency r), sent := sent net @ [rq]\<rparr>))"

record MCPClientFramework =
  services :: "string \<rightharpoonup> ServiceEndpoint"
  session :: bool

subsection \<open>\<open>_wait_for_completion\<close>\<close>

text \<open>
  \<open>error=status_data.get('error', 'Execution failed')\<close>: the field holds what the
  status body gives, so a body whose \<open>error\<close> is \<open>null\<close> leaves it \<open>None\<close>.
\<close>

definition remote_error :: "json \<Rightarrow> call_error option" where
  "remote_error v = (if v = JNull then None else Some (RemoteError v))"

function wait_loop :: "ServiceEndpoint \<Rightarrow> json \<Rightarrow> int \<Rightarrow> int \<Rightarrow> network \<Rightarrow> MCPCallResult \<times> network" where
  "wait_loop svc exec_id tmo start_time net =
     (if clock net - start_time > tmo * 1000 then
        (MCPCallResult_new False JNull (Some (ExecutionTimedOut exec_id)) exec_id, net)
      else
        (case http_request (GET_status (url svc) exec_id) net of
           (Inl e, net1) \<Rightarrow>
             (MCPCallResult_new False JNull (Some (StatusCheckFailed (str_exn e))) JNull, net1)
         | (Inr response, net1) \<Rightarrow>
             if status_code response = 200 then
               (case body_json response of
                  Inl e \<Rightarrow>
                    (MCPCallResult_new False JNull (Some (StatusCheckFailed (str_exn e))) JNull, net1)
                | Inr (JObj status_data) \<Rightarrow>
                    (let st = dict_get status_data ''status'' JNull in
                     if st = JStr ''completed'' then
                       (MCPCallResult_new True (dict_get status_data ''result'' JNull) None exec_id, net1)
                     else if st = JStr ''failed'' then
                       (MCPCallResult_new False JNull
                          (remote_error (dict_get status_data ''error'' (JStr ''Execution failed'')))
                          exec_id, net1)
                     else if st = JStr ''cancelled'' then
                       (MCPCallResult_new False JNull (Some ExecutionCancelled) exec_id, net1)
                     else wait_loop svc exec_id tmo start_time (sleep 2000 net1))
                | Inr v \<Rightarrow>
                    (MCPCallResult_new False JNull (Some (StatusCheckFailed (str_exn (no_get v)))) JNull, net1))
             else
               (MCPCallResult_new False JNull (Some (StatusHttpError (status_code response))) JNull, net1)))"
  by pat_completeness auto
termination
  by (relation "measure (\<lambda>(svc, exec_id, tmo, start_time, net). nat (start_time + tmo * 1000 + 1 - clock net))")
     (auto simp: http_request_def sleep_def Let_def)

definition wait_for_completion :: "ServiceEndpoint \<Rightarrow> json \<Rightarrow> int \<Rightarrow> network \<Rightarrow> MCPCallResult \<times> network" where
  "wait_for_completion svc exec_id tmo net = wait_loop svc exec_id tmo (clock net) net"

subsection \<open>\<open>call_service\<close>\<close>

text \<open>The assignments through the alias \<open>service = self.services[service_name]\<close>.\<close>

definition update_service :: "string \<Rightarrow> (ServiceEndpoint \<Rightarrow> ServiceEndpoint) \<Rightarrow> MCPClientFramework \<Rightarrow> MCPClientFramework" where
  "update_service n f self =
     (case services self n of
        None \<Rightarrow> self
      | Some svc \<Rightarrow> self\<lparr>services := (services self)(n \<mapsto> f svc)\<rparr>)"

text \<open>\<open>timeout or service.timeout\<close>\<close>

definition timeout_or :: "int option \<Rightarrow> int \<Rightarrow> int" where
  "timeout_or t dflt = (case t of None \<Rightarrow> dflt | Some v \<Rightarrow> if v = 0 then dflt else v)"

text \<open>
  The body of the \<open>async with self.session.post(...) as response\<close> block up to the
  assignment of \<open>result\<close>: the result, or the exception raised while reading the body.
\<close>

definition response_result :: "ServiceEndpoint \<Rightarrow> int \<Rightarrow> http_response \<Rightarrow> network \<Rightarrow> (exn + MCPCallResult) \<times> network" where
  "response_result svc timeout_val response net =
     (if status_code response = 200 then
        (case body_json response of
           Inl e \<Rightarrow> (Inl e, net)
         | Inr (JObj result_data) \<Rightarrow>
             if dict_get result_data ''status'' JNull = JStr ''running'' then
               (let exec_id = dict_get result_data ''execution_id'' JNull in
                if truthy exec_id then
                  (case wait_for_completion svc exec_id timeout_val net of
                     (result, net1) \<Rightarrow> (Inr result, net1))
                else (Inr (MCPCallResult_new False JNull (Some NoExecutionId) JNull), net))
             else
               (Inr (MCPCallResult_new True (JObj result_data) None
                       (dict_get result_data ''execution_id'' JNull)), net)
         | Inr v \<Rightarrow> (Inl (no_get v), net))
      else
        (case body_text response of
           Inl e \<Rightarrow> (Inl e, net)
         | Inr error_text \<Rightarrow>
             (Inr (MCPCallResult_new False JNull
                     (Some (HttpError (status_code response) error_text)) JNull), net)))"

text \<open>The \<open>try\<close> block of \<open>call_service\<close>, entered with \<open>start_time\<close> read.\<close>

definition call_service_try ::
  "string \<Rightarrow> string \<Rightarrow> json \<Rightarrow> int option \<Rightarrow> ServiceEndpoint \<Rightarrow> int \<Rightarrow> MCPClientFramework \<Rightarrow> network
     \<Rightarrow> (exn + MCPCallResult) \<times> MCPClientFramework \<times> network" where
  "call_service_try sname tname parameters tmo svc start_time self net =
     (let self1 = self\<lparr>session := True\<rparr>;
          request_data = JObj [(''tool_name'', JStr tname), (''parameters'', parameters), (''priority'', JInt 0)];
          timeout_val = timeout_or tmo (timeout svc)
      in case http_request (POST_execute (url svc) request_data timeout_val) net of
           (Inl e, net1) \<Rightarrow> (Inl e, self1, net1)
         | (Inr response, net1) \<Rightarrow>
             (case response_result svc timeout_val response net1 of
                (Inl e, net2) \<Rightarrow> (Inl e, self1, net2)
              | (Inr result, net2) \<Rightarrow>
                  (Inr (result\<lparr>duration := clock net2 - start_time,
                               service_name := Some sname, tool_name := Some tname\<rparr>),
                   update_service sname
                     (\<lambda>s. s\<lparr>response_time := clock net2 - start_time, error_count := 0, status := HEALTHY\<rparr>)
                     self1,
                   net2)))"

text \<open>The function under the decorator: the two early returns, the \<open>try\<close> block and
  its two handlers.\<close>

definition call_service_raw ::
  "string \<Rightarrow> string \<Rightarrow> json \<Rightarrow> int option \<Rightarrow> MCPClientFramework \<Rightarrow> network
     \<Rightarrow> (exn + MCPCallResult) \<times> MCPClientFramework \<times> network" where
  "call_service_raw sname tname parameters tmo self net =
     (case services self sname of
        None \<Rightarrow> (Inr (MCPCallResult_new False JNull (Some (ServiceNotFound sname)) JNull), self, net)
      | Some svc \<Rightarrow>
          if status svc = UNHEALTHY then
            (Inr (MCPCallResult_new False JNull (Some (ServiceUnhealthy sname)) JNull), self, net)
          else
            (let start_time = clock net in
             case call_service_try sname tname parameters tmo svc start_time self net of
               (Inr result, self1, net1) \<Rightarrow> (Inr result, self1, net1)
             | (Inl TimeoutError, self1, net1) \<Rightarrow>
                 (Inr ((MCPCallResult_new False JNull (Some (RequestTimedOut sname)) JNull)
                         \<lparr>service_name := Some sname, tool_name := Some tname,
                          duration := clock net1 - start_time\<rparr>),
                  update_service sname (\<lambda>s. s\<lparr>error_count := error_count s + 1\<rparr>) self1,
                  net1)
             | (Inl (OtherError m), self1, net1) \<Rightarrow>
                 (Inr ((MCPCallResult_new False JNull (Some (RequestFailed sname m)) JNull)
                         \<lparr>service_name := Some sname, tool_name := Some tname,
                          duration := clock net1 - start_time\<rparr>),
                  update_service sname
                    (\<lambda>s. if error_count s + 1 \<ge> max_errors s
                         then s\<lparr>error_count := error_count s + 1, status := UNHEALTHY\<rparr>
                         else s\<lparr>error_count := error_count s + 1\<rparr>)
                    self1,
                  net1)))"

text \<open>
  \<open>@backoff.on_exception(backoff.expo, Exception, max_tries=3)\<close>: the target is called
  again, after a wait, when it raises; the exception of the last try propagates.
  \<open>on_exception n\<close> allows \<open>n\<close> more tries after the first.
\<close>

fun on_exception ::
  "nat \<Rightarrow> (MCPClientFramework \<Rightarrow> network \<Rightarrow> (exn + 'a) \<times> MCPClientFramework \<times> network)
     \<Rightarrow> MCPClientFramework \<Rightarrow> network \<Rightarrow> (exn + 'a) \<times> MCPClientFramework \<times> network" where
  "on_exception 0 target self net = target self net"
| "on_exception (Suc n) target self net =
     (case target self net of
        (Inl e, self1, net1) \<Rightarrow> on_exception n target self1 (sleep (backoff_wait net1 n) net1)
      | (Inr r, self1, net1) \<Rightarrow> (Inr r, self1, net1))"

definition call_service ::
  "string \<Rightarrow> string \<Rightarrow> json \<Rightarrow> int option \<Rightarrow> MCPClientFramework \<Rightarrow> network
     \<Rightarrow> (exn + MCPCallResult) \<times> MCPClientFramework \<times> network" where
  "call_service sname tname parameters tmo =
     on_exception 2 (call_service_raw sname tname parameters tmo)"

subsection \<open>\<open>health_check\<close>\<close>

definition health_check ::
  "string \<Rightarrow> MCPClientFramework \<Rightarrow> network \<Rightarrow> (exn + bool) \<times> MCPClientFramework \<times> network" where
  "health_check sname self net =
     (case services self sname of
        None \<Rightarrow> (Inr False, self, net)
      | Some svc \<Rightarrow>
          (let self1 = self\<lparr>session := True\<rparr> in
           case http_request (GET_health (health_check_url svc) 10) net of
             (Inr response, net1) \<Rightarrow>
               (let is_healthy = (status_code response = 200) in
                (Inr is_healthy,
                 update_service sname
                   (\<lambda>s. s\<lparr>status := (if is_healthy then HEALTHY else UNHEALTHY), last_check := clock net1\<rparr>)
                   self1,
                 net1))
           | (Inl e, net1) \<Rightarrow>
               (Inr False,
                update_service sname (\<lambda>s. s\<lparr>status := UNHEALTHY, last_check := clock net1\<rparr>) self1,
                net1)))"

section \<open>Workflow engine (\<open>src/project/src/workflow/engine.py\<close>)\<close>

datatype StepStatus = PENDING | RUNNING | COMPLETED | FAILED | CANCELLED

datatype WorkflowStatus = W_PENDING | W_RUNNING | W_COMPLETED | W_FAILED | W_CANCELLED

text \<open>
  The exceptions of the engine, one constructor per raise site, with the interpolated
  value; \<open>HandlerError m\<close> is any exception a step handler raises, \<open>m\<close> its \<open>str(e)\<close>.
  \<^item> \<open>UnknownWorkflow n\<close>: the \<open>ValueError\<close> of \<open>start_workflow\<close>
  \<^item> \<open>UnknownInstance i\<close>: the \<open>ValueError\<close> of \<open>execute_workflow\<close>
  \<^item> \<open>UnsupportedStepType t\<close>: the \<open>ValueError\<close> of \<open>_execute_step\<close>
\<close>

datatype engine_exn =
    UnknownWorkflow string
  | UnknownInstance string
  | UnsupportedStepType string
  | HandlerError string

record WorkflowStep =
  step_id :: string
  step_name :: string
  step_description :: string
  step_type :: string
  step_parameters :: json
  dependencies :: "string list"
  step_status :: StepStatus
  step_result :: json
  step_error :: "engine_exn option"
  step_start_time :: "int option"
  step_end_time :: "int option"
  execution_time :: "int option"

record WorkflowDefinition =
  def_name :: string
  def_description :: string
  def_version :: string
  def_steps :: "WorkflowStep list"
  parameters_schema :: json

record WorkflowInstance =
  inst_id :: string
  workflow_name :: string
  inst_parameters :: json
  steps :: "WorkflowStep list"
  inst_status :: WorkflowStatus
  current_step :: "string option"
  inst_start_time :: "int option"
  inst_end_time :: "int option"
  total_execution_time :: "int option"

text \<open>
  What the engine runs in: the clock (milliseconds), the behaviour of the six step
  handlers (the time a handler takes and the dict it returns, or the \<open>str(e)\<close> of the
  exception it raises), the identifiers \<open>uuid.uuid4()\<close> draws, and the record of
  every assignment to a \<open>step.status\<close> in program order (instance id, position of the
  step in \<open>instance.steps\<close>, value assigned): what somebody who watches the
  instance sees.
\<close>

record runtime =
  now :: int
  handler :: "WorkflowStep \<Rightarrow> WorkflowInstance \<Rightarrow> nat \<times> (string + json)"
  uuid4 :: "nat \<Rightarrow> string"
  uuid_calls :: nat
  status_writes :: "(string \<times> nat \<times> StepStatus) list"

record WorkflowEngine =
  workflow_definitions :: "string \<rightharpoonup> WorkflowDefinition"
  workflow_instances :: "string \<rightharpoonup> WorkflowInstance"
  running_instances :: "string set"

subsection \<open>\<open>start_workflow\<close> and \<open>cancel_workflow\<close>\<close>

text \<open>The clone of one step template: the fields not copied take the dataclass defaults.\<close>

definition copy_step :: "WorkflowStep \<Rightarrow> WorkflowStep" where
  "copy_step step_def =
     \<lparr>step_id = step_id step_def, step_name = step_name step_def,
      step_description = step_description step_def, step_type = step_type step_def,
      step_parameters = step_parameters step_def, dependencies = dependencies step_def,
      step_status = PENDING, step_result = JNull, step_error = None,
      step_start_time = None, step_end_time = None, execution_time = None\<rparr>"

definition start_workflow ::
  "string \<Rightarrow> json \<Rightarrow> WorkflowEngine \<Rightarrow> runtime \<Rightarrow> (engine_exn + string) \<times> WorkflowEngine \<times> runtime" where
  "start_workflow wname parameters self rt =
     (case workflow_definitions self wname of
        None \<Rightarrow> (Inl (UnknownWorkflow wname), self, rt)
      | Some definition \<Rightarrow>
          (let instance_id = uuid4 rt (uuid_calls rt);
               rt1 = rt\<lparr>uuid_calls := Suc (uuid_calls rt)\<rparr>;
               instance = \<lparr>inst_id = instance_id, workflow_name = wname, inst_parameters = parameters,
                           steps = map copy_step (def_steps definition), inst_status = W_PENDING,
                           current_step = None, inst_start_time = None, inst_end_time = None,
                           total_execution_time = None\<rparr>
           in (Inr instance_id,
               self\<lparr>workflow_instances := (workflow_instances self)(instance_id \<mapsto> instance)\<rparr>,
               rt1)))"


subsection \<open>\<open>_execute_step\<close>\<close>

definition known_step_types :: "string list" where
  "known_step_types =
     [''data_fetch'', ''mcp_call'', ''data_save'', ''geoserver_publish'',
      ''parallel_mcp_calls'', ''data_integration'']"

text \<open>An assignment \<open>step.status = v\<close> to the step at position \<open>i\<close> of the instance.\<close>

definition set_status :: "nat \<Rightarrow> StepStatus \<Rightarrow> WorkflowInstance \<Rightarrow> runtime \<Rightarrow> WorkflowInstance \<times> runtime" where
  "set_status i v instance rt =
     (instance\<lparr>steps := (steps instance)[i := (steps instance ! i)\<lparr>step_status := v\<rparr>]\<rparr>,
      rt\<lparr>status_writes := status_writes rt @ [(inst_id instance, i, v)]\<rparr>)"

definition update_step :: "nat \<Rightarrow> (WorkflowStep \<Rightarrow> WorkflowStep) \<Rightarrow> WorkflowInstance \<Rightarrow> WorkflowInstance" where
  "update_step i f instance = instance\<lparr>steps := (steps instance)[i := f (steps instance ! i)]\<rparr>"

text \<open>The \<open>finally\<close> block.\<close>

definition finish_step :: "nat \<Rightarrow> WorkflowInstance \<Rightarrow> runtime \<Rightarrow> WorkflowInstance" where
  "finish_step i instance rt =
     update_step i
       (\<lambda>s. (s\<lparr>step_end_time := Some (now rt)\<rparr>)
              \<lparr>execution_time := (case step_start_time s of
                                     None \<Rightarrow> execution_time s
                                   | Some t \<Rightarrow> Some (now rt - t))\<rparr>)
       instance"

text \<open>\<open>_execute_step(step, instance)\<close> for the step at position \<open>i\<close> of \<open>instance.steps\<close>;
  \<open>Some e\<close> is the exception it raises.\<close>

definition execute_step ::
  "nat \<Rightarrow> WorkflowInstance \<Rightarrow> runtime \<Rightarrow> engine_exn option \<times> WorkflowInstance \<times> runtime" where
  "execute_step i instance rt =
     (case set_status i RUNNING instance rt of (instance1, rt1) \<Rightarrow>
      let instance2 = update_step i (\<lambda>s. s\<lparr>step_start_time := Some (now rt1)\<rparr>) instance1;
          step = steps instance2 ! i;
          ran = (if step_type step \<in> set known_step_types
                 then (case handler rt1 step instance2 of
                         (elapsed, Inl m) \<Rightarrow> (elapsed, Inl (HandlerError m))
                       | (elapsed, Inr r) \<Rightarrow> (elapsed, Inr r))
                 else (0, Inl (UnsupportedStepType (step_type step))));
          rt2 = rt1\<lparr>now := now rt1 + int (fst ran)\<rparr>
      in case snd ran of
           Inr r \<Rightarrow>
             (case set_status i COMPLETED (update_step i (\<lambda>s. s\<lparr>step_result := r\<rparr>) instance2) rt2 of
                (instance3, rt3) \<Rightarrow> (None, finish_step i instance3 rt3, rt3))
         | Inl e \<Rightarrow>
             (case set_status i FAILED (update_step i (\<lambda>s. s\<lparr>step_error := Some e\<rparr>) instance2) rt2 of
                (instance3, rt3) \<Rightarrow> (Some e, finish_step i instance3 rt3, rt3)))"

subsection \<open>\<open>execute_workflow\<close>\<close>

text \<open>How a block of the function ends: it falls through, it executes \<open>return\<close>, or
  an exception leaves it.\<close>

datatype 'a flow = Next 'a | Return 'a | Raise engine_exn 'a

text \<open>The \<open>for step in instance.steps\<close> loop, over the positions still to visit.\<close>

fun scan_steps ::
  "nat list \<Rightarrow> string set \<Rightarrow> WorkflowInstance \<Rightarrow> runtime \<Rightarrow> (string set \<times> WorkflowInstance \<times> runtime) flow" where
  "scan_steps [] completed_steps instance rt = Next (completed_steps, instance, rt)"
| "scan_steps (i # rest) completed_steps instance rt =
     (let step = steps instance ! i in
      if step_id step \<in> completed_steps then scan_steps rest completed_steps instance rt
      else if \<forall>dep \<in> set (dependencies step). dep \<in> completed_steps then
        (case execute_step i instance rt of
           (Some e, instance1, rt1) \<Rightarrow> Raise e (completed_steps, instance1, rt1)
         | (None, instance1, rt1) \<Rightarrow>
             (let completed1 = insert (step_id step) completed_steps;
                  instance2 = instance1\<lparr>current_step := Some (step_id step)\<rparr>
              in if step_status (steps instance2 ! i) = FAILED then
                   Return (completed1,
                           instance2\<lparr>inst_status := W_FAILED, inst_end_time := Some (now rt1)\<rparr>, rt1)
                 else scan_steps rest completed1 instance2 rt1))
      else scan_steps rest completed_steps instance rt)"

text \<open>
  The \<open>while len(completed_steps) < len(instance.steps)\<close> loop. Nothing bounds the
  number of its passes, so the model counts them down from \<open>fuel\<close>: \<open>Inl\<close> is a loop
  still running when the fuel is spent, with the state it has reached; \<open>Inr\<close> is a
  loop that has ended.
\<close>

fun while_steps ::
  "nat \<Rightarrow> string set \<Rightarrow> WorkflowInstance \<Rightarrow> runtime
     \<Rightarrow> (string set \<times> WorkflowInstance \<times> runtime) + (WorkflowInstance \<times> runtime) flow" where
  "while_steps fuel completed_steps instance rt =
     (if card completed_steps < length (steps instance) then
        (case fuel of
           0 \<Rightarrow> Inl (completed_steps, instance, rt)
         | Suc n \<Rightarrow>
             (case scan_steps [0..<length (steps instance)] completed_steps instance rt of
                Raise e (completed1, instance1, rt1) \<Rightarrow> Inr (Raise e (instance1, rt1))
              | Return (completed1, instance1, rt1) \<Rightarrow> Inr (Return (instance1, rt1))
              | Next (completed1, instance1, rt1) \<Rightarrow>
                  if card completed1 = 0 then
                    Inr (Return (instance1\<lparr>inst_status := W_FAILED, inst_end_time := Some (now rt1)\<rparr>, rt1))
                  else while_steps n completed1 instance1 (rt1\<lparr>now := now rt1 + 100\<rparr>)))
      else Inr (Next (instance, rt)))"

text \<open>
  \<open>execute_workflow(instance_id)\<close>: \<open>None\<close> when the loop is still running after
  \<open>fuel\<close> passes, else the exception raised (if any) with the engine and the runtime
  it leaves.
\<close>

definition execute_workflow ::
  "nat \<Rightarrow> string \<Rightarrow> WorkflowEngine \<Rightarrow> runtime \<Rightarrow> (engine_exn option \<times> WorkflowEngine \<times> runtime) option" where
  "execute_workflow fuel instance_id self rt =
     (case workflow_instances self instance_id of
        None \<Rightarrow> Some (Some (UnknownInstance instance_id), self, rt)
      | Some instance0 \<Rightarrow>
          (let instance = instance0\<lparr>inst_status := W_RUNNING, inst_start_time := Some (now rt)\<rparr> in
           case while_steps fuel {} instance rt of
             Inl running \<Rightarrow> None
           | Inr (Next (instance1, rt1)) \<Rightarrow>
               Some (None,
                     self\<lparr>workflow_instances := (workflow_instances self)
                       (instance_id \<mapsto>
                          (instance1\<lparr>inst_status := W_COMPLETED, inst_end_time := Some (now rt1)\<rparr>)
                            \<lparr>total_execution_time :=
                               (case inst_start_time instance1 of
                                  None \<Rightarrow> total_execution_time instance1
                                | Some t \<Rightarrow> Some (now rt1 - t))\<rparr>)\<rparr>,
                     rt1)
           | Inr (Return (instance1, rt1)) \<Rightarrow>
               Some (None, self\<lparr>workflow_instances := (workflow_instances self)(instance_id \<mapsto> instance1)\<rparr>, rt1)
           | Inr (Raise e (instance1, rt1)) \<Rightarrow>
               Some (Some e,
                     self\<lparr>workflow_instances := (workflow_instances self)
                       (instance_id \<mapsto> instance1\<lparr>inst_status := W_FAILED, inst_end_time := Some (now rt1)\<rparr>)\<rparr>,
                     rt1)))"

text \<open>
  A call of \<open>execute_workflow\<close> that is still in its loop after \<open>fuel\<close> passes: its
  local \<open>completed_steps\<close>, and the engine and the runtime as they are then. The
  instance in \<open>workflow_instances\<close> is the object the loop works on, so it is what
  \<open>get_workflow_instance\<close> returns meanwhile. \<open>None\<close> when the call has ended.
\<close>

definition execute_workflow_unfinished ::
  "nat \<Rightarrow> string \<Rightarrow> WorkflowEngine \<Rightarrow> runtime \<Rightarrow> (string set \<times> WorkflowEngine \<times> runtime) option" where
  "execute_workflow_unfinished fuel instance_id self rt =
     (case workflow_instances self instance_id of
        None \<Rightarrow> None
      | Some instance0 \<Rightarrow>
          (let instance = instance0\<lparr>inst_status := W_RUNNING, inst_start_time := Some (now rt)\<rparr> in
           case while_steps fuel {} instance rt of
             Inl (completed1, instance1, rt1) \<Rightarrow>
               Some (completed1,
                     self\<lparr>workflow_instances := (workflow_instances self)(instance_id \<mapsto> instance1)\<rparr>,
                     rt1)
           | Inr ended \<Rightarrow> None))"

text \<open>\<open>execute_workflow_background\<close>: the wrapper the API schedules.\<close>

definition execute_workflow_background ::
  "nat \<Rightarrow> string \<Rightarrow> WorkflowEngine \<Rightarrow> runtime \<Rightarrow> (engine_exn option \<times> WorkflowEngine \<times> runtime) option" where
  "execute_workflow_background fuel instance_id self rt =
     (case execute_workflow fuel instance_id self rt of
        None \<Rightarrow> None
      | Some (None, self1, rt1) \<Rightarrow> Some (None, self1, rt1)
      | Some (Some e, self1, rt1) \<Rightarrow>
          (case workflow_instances self1 instance_id of
             None \<Rightarrow> Some (None, self1, rt1)
           | Some instance \<Rightarrow>
               Some (None,
                     self1\<lparr>workflow_instances := (workflow_instances self1)
                       (instance_id \<mapsto> instance\<lparr>inst_status := W_FAILED, inst_end_time := Some (now rt1)\<rparr>)\<rparr>,
                     rt1)))"

section \<open>Scenarios\<close>

text \<open>Two registered services, \<open>a\<close> with no error counted and \<open>b\<close> one error below its
  threshold of three, and networks that answer every request in 5 ms.\<close>

definition svc_a :: ServiceEndpoint where
  "svc_a = \<lparr>name = ''a'', url = ''http://localhost:8001'',
            health_check_url = ''http://localhost:8001/health'', status = HEALTHY,
            last_check = 0, response_time = 0, error_count = 0, max_errors = 3, timeout = 30\<rparr>"

definition svc_b :: ServiceEndpoint where
  "svc_b = \<lparr>name = ''b'', url = ''http://localhost:8002'',
            health_check_url = ''http://localhost:8002/health'', status = HEALTHY,
            last_check = 0, response_time = 0, error_count = 2, max_errors = 3, timeout = 30\<rparr>"

definition client_ab :: MCPClientFramework where
  "client_ab = \<lparr>services = [''a'' \<mapsto> svc_a, ''b'' \<mapsto> svc_b], session = False\<rparr>"

definition net_of :: "(nat \<Rightarrow> reply) \<Rightarrow> network" where
  "net_of rs = \<lparr>clock = 0, replies = rs, sent = [], backoff_wait = (\<lambda>n. 0)\<rparr>"

definition raising :: "exn \<Rightarrow> reply" where
  "raising e = \<lparr>latency = 5, outcome = Inl e\<rparr>"

definition responding :: "nat \<Rightarrow> json \<Rightarrow> reply" where
  "responding c j = \<lparr>latency = 5, outcome = Inr \<lparr>status_code = c, body_json = Inr j, body_text = Inr []\<rparr>\<rparr>"

definition body_running :: json where
  "body_running = JObj [(''status'', JStr ''running''), (''execution_id'', JStr ''x'')]"

definition body_completed :: json where
  "body_completed = JObj [(''status'', JStr ''completed''), (''result'', JObj [(''risk'', JInt 7)]),
                          (''execution_id'', JStr ''x'')]"

definition net_immediate :: network where
  "net_immediate = net_of (\<lambda>n. responding 200 body_completed)"

definition net_polling :: network where
  "net_polling = net_of (\<lambda>n. if n = 0 then responding 200 body_running else responding 200 body_completed)"

definition net_poll_fails :: network where
  "net_poll_fails = net_of (\<lambda>n. if n = 0 then responding 200 body_running
                                 else if n = 1 then raising (OtherError ''reset'')
                                 else responding 200 body_completed)"

definition net_refused :: network where
  "net_refused = net_of (\<lambda>n. raising (OtherError ''refused''))"

definition net_timing_out :: network where
  "net_timing_out = net_of (\<lambda>n. raising TimeoutError)"

definition net_healthy :: network where
  "net_healthy = net_of (\<lambda>n. responding 200 (JObj []))"

definition net_array :: network where
  "net_array = net_of (\<lambda>n. responding 200 (JArr []))"

definition body_failed :: json where
  "body_failed = JObj [(''status'', JStr ''failed''), (''error'', JStr ''boom''),
                       (''execution_id'', JStr ''x'')]"

definition net_immediate_failed :: network where
  "net_immediate_failed = net_of (\<lambda>n. responding 200 body_failed)"

definition net_polling_failed :: network where
  "net_polling_failed = net_of (\<lambda>n. if n = 0 then responding 200 body_running else responding 200 body_failed)"

text \<open>
  The body of the reply to the last request sent, when that reply is a response with
  status 200 whose body decodes to a JSON object: after a call that polled, the last
  status body polled.
\<close>

definition last_body :: "network \<Rightarrow> (string \<times> json) list option" where
  "last_body net =
     (if sent net = [] then None
      else case outcome (replies net (length (sent net) - 1)) of
             Inl e \<Rightarrow> None
           | Inr response \<Rightarrow>
               if status_code response = 200
               then (case body_json response of Inr (JObj d) \<Rightarrow> Some d | _ \<Rightarrow> None)
               else None)"

section \<open>Runs of the engine\<close>

text \<open>
  The two assignments \<open>_execute_step\<close> makes to the status of the step at position
  \<open>i\<close>, and the assignments of a run in which the steps at the positions \<open>order\<close>
  were executed, one after the other, and completed.
\<close>

definition step_writes :: "string \<Rightarrow> nat \<Rightarrow> StepStatus \<Rightarrow> (string \<times> nat \<times> StepStatus) list" where
  "step_writes iid i v = [(iid, i, RUNNING), (iid, i, v)]"

definition completed_writes :: "string \<Rightarrow> nat list \<Rightarrow> (string \<times> nat \<times> StepStatus) list" where
  "completed_writes iid order = concat (map (\<lambda>i. step_writes iid i COMPLETED) order)"

text \<open>
  The state of \<open>execute_workflow\<close> between two steps: the steps at the positions
  \<open>order\<close> have been executed, in that order, and are completed; their ids, pairwise
  different, are the set \<open>completed_steps\<close>; every other step is as it was in
  \<open>steps0\<close>. \<open>W0\<close> is the record of assignments before the run.
\<close>

definition run_inv ::
  "(string \<times> nat \<times> StepStatus) list \<Rightarrow> string \<Rightarrow> WorkflowStep list \<Rightarrow> nat list \<Rightarrow> string set
     \<Rightarrow> WorkflowInstance \<Rightarrow> runtime \<Rightarrow> bool" where
  "run_inv W0 iid steps0 order completed inst rt \<longleftrightarrow>
     status_writes rt = W0 @ completed_writes iid order
   \<and> inst_id inst = iid
   \<and> length (steps inst) = length steps0
   \<and> set order \<subseteq> {..<length steps0}
   \<and> distinct (map (\<lambda>i. step_id (steps0 ! i)) order)
   \<and> completed = (\<lambda>i. step_id (steps0 ! i)) ` set order
   \<and> (\<forall>i<length steps0. step_id (steps inst ! i) = step_id (steps0 ! i))
   \<and> (\<forall>i\<in>set order. step_status (steps inst ! i) = COMPLETED)
   \<and> (\<forall>i<length steps0. i \<notin> set order \<longrightarrow> steps inst ! i = steps0 ! i)"

text \<open>The state in which a step raises: as before, and the step at position \<open>f\<close> is
  failed with the error \<open>e\<close>.\<close>

definition run_fail ::
  "(string \<times> nat \<times> StepStatus) list \<Rightarrow> string \<Rightarrow> WorkflowStep list \<Rightarrow> nat list \<Rightarrow> nat \<Rightarrow> engine_exn
     \<Rightarrow> WorkflowInstance \<Rightarrow> runtime \<Rightarrow> bool" where
  "run_fail W0 iid steps0 order f e inst rt \<longleftrightarrow>
     status_writes rt = W0 @ completed_writes iid order @ step_writes iid f FAILED
   \<and> inst_id inst = iid
   \<and> length (steps inst) = length steps0
   \<and> set order \<subseteq> {..<length steps0}
   \<and> distinct order
   \<and> f < length steps0 \<and> f \<notin> set order
   \<and> (\<forall>i\<in>set order. step_status (steps inst ! i) = COMPLETED)
   \<and> step_status (steps inst ! f) = FAILED
   \<and> step_error (steps inst ! f) = Some e
   \<and> (\<forall>i<length steps0. i \<notin> set order \<longrightarrow> i \<noteq> f \<longrightarrow> steps inst ! i = steps0 ! i)"

text \<open>The values assigned, in order, to the status of the step at position \<open>i\<close> of
  instance \<open>iid\<close>.\<close>

definition writes_of :: "string \<Rightarrow> nat \<Rightarrow> (string \<times> nat \<times> StepStatus) list \<Rightarrow> StepStatus list" where
  "writes_of iid i ws = map (\<lambda>w. snd (snd w)) (filter (\<lambda>w. fst w = iid \<and> fst (snd w) = i) ws)"

subsection \<open>Scenarios of the engine\<close>

text \<open>
  An engine with one workflow definition \<open>w\<close>, a runtime whose handlers all succeed
  after a second, and the engine after \<open>start_workflow\<close> has created the instance
  \<open>i\<close> of \<open>w\<close>. Three definitions: a step followed by two steps that wait for each
  other, a chain whose second step has a type the engine does not know, the same
  two steps listed in reverse (so that the second pass reaches the unknown type),
  and a chain of two steps.
\<close>

definition new_step :: "string \<Rightarrow> string \<Rightarrow> string list \<Rightarrow> WorkflowStep" where
  "new_step i t deps =
     \<lparr>step_id = i, step_name = i, step_description = [], step_type = t, step_parameters = JObj [],
      dependencies = deps, step_status = PENDING, step_result = JNull, step_error = None,
      step_start_time = None, step_end_time = None, execution_time = None\<rparr>"

definition engine_with :: "WorkflowStep list \<Rightarrow> WorkflowEngine" where
  "engine_with ss =
     \<lparr>workflow_definitions =
        [''w'' \<mapsto> \<lparr>def_name = ''w'', def_description = [], def_version = ''1.0.0'', def_steps = ss,
                   parameters_schema = JObj []\<rparr>],
      workflow_instances = Map.empty, running_instances = {}\<rparr>"

definition rt0 :: runtime where
  "rt0 = \<lparr>now = 0, handler = (\<lambda>s i. (1000, Inr (JObj [(''success'', JBool True)]))),
          uuid4 = (\<lambda>n. ''i''), uuid_calls = 0, status_writes = []\<rparr>"

definition started :: "WorkflowStep list \<Rightarrow> WorkflowEngine \<times> runtime" where
  "started ss = snd (start_workflow ''w'' (JObj []) (engine_with ss) rt0)"

definition cyclic_steps :: "WorkflowStep list" where
  "cyclic_steps = [new_step ''s1'' ''data_fetch'' [], new_step ''s2'' ''mcp_call'' [''s3''],
                   new_step ''s3'' ''data_save'' [''s2'']]"

definition failing_steps :: "WorkflowStep list" where
  "failing_steps = [new_step ''s1'' ''data_fetch'' [], new_step ''s2'' ''bogus'' [''s1''],
                    new_step ''s3'' ''data_save'' [''s2'']]"

definition late_failing_steps :: "WorkflowStep list" where
  "late_failing_steps = [new_step ''s2'' ''bogus'' [''s1''], new_step ''s1'' ''data_fetch'' []]"

definition chain_steps :: "WorkflowStep list" where
  "chain_steps = [new_step ''s1'' ''data_fetch'' [], new_step ''s2'' ''mcp_call'' [''s1'']]"


section \<open>Properties of the client\<close>

subsection \<open>No exception leaves \<open>call_service\<close>\<close>

lemma call_service_raw_returns:
  "\<exists>r s n. call_service_raw sname tname ps tmo self net = (Inr r, s, n)"
  by (auto simp: call_service_raw_def Let_def split: option.splits prod.splits sum.splits exn.splits)

lemma on_exception_returns:
  assumes "\<And>s n. \<exists>r s' n'. target s n = (Inr r, s', n')"
  shows "on_exception k target self net = target self net"
proof (induction k arbitrary: self net)
  case 0
  show ?case by simp
next
  case (Suc k)
  from assms[of self net] obtain r s' n' where "target self net = (Inr r, s', n')" by blast
  then show ?case by simp
qed

lemma call_service_eq_raw:
  "call_service sname tname ps tmo self net = call_service_raw sname tname ps tmo self net"
  unfolding call_service_def
  by (rule on_exception_returns) (rule call_service_raw_returns)

lemma call_service_returns: "\<exists>r s n. call_service sname tname ps tmo self net = (Inr r, s, n)"
  by (simp add: call_service_eq_raw call_service_raw_returns)

lemmas scenario_defs = svc_a_def svc_b_def client_ab_def net_of_def raising_def responding_def
  body_running_def body_completed_def net_immediate_def net_polling_def net_poll_fails_def
  net_refused_def net_timing_out_def net_healthy_def net_array_def
  body_failed_def net_immediate_failed_def net_polling_failed_def

lemmas client_defs = call_service_raw_def call_service_try_def response_result_def
  wait_for_completion_def http_request_def update_service_def timeout_or_def sleep_def
  MCPCallResult_new_def dict_get_def Let_def

subsection \<open>The registry gate\<close>

text \<open>
  Claim C5. \<open>call_service\<close> first consults the registry: for a name that is not
  registered it returns a failed result whose error is
  \<open>Service '<name>' not found\<close>, and for a service whose status is \<open>UNHEALTHY\<close> it
  returns a failed result at once. In both cases the framework and the network are
  left as they were: nothing is sent.
\<close>

theorem C5_registry_gate:
  "(services self sname = None \<longrightarrow>
      call_service sname tname ps tmo self net =
        (Inr (MCPCallResult_new False JNull (Some (ServiceNotFound sname)) JNull), self, net))
   \<and> (\<forall>svc. services self sname = Some svc \<and> status svc = UNHEALTHY \<longrightarrow>
      call_service sname tname ps tmo self net =
        (Inr (MCPCallResult_new False JNull (Some (ServiceUnhealthy sname)) JNull), self, net))"
  by (simp add: call_service_eq_raw call_service_raw_def)

text \<open>The gate at work: \<open>c\<close> is not registered, and \<open>a\<close> is marked unhealthy.\<close>

theorem C5_registry_gate_witness:
  "services client_ab ''c'' = None
   \<and> call_service ''c'' ''t'' JNull None client_ab (net_of (\<lambda>n. raising TimeoutError)) =
        (Inr (MCPCallResult_new False JNull (Some (ServiceNotFound ''c'')) JNull), client_ab,
         net_of (\<lambda>n. raising TimeoutError))
   \<and> services (client_ab\<lparr>services := [''a'' \<mapsto> svc_a\<lparr>status := UNHEALTHY\<rparr>]\<rparr>) ''a''
        = Some (svc_a\<lparr>status := UNHEALTHY\<rparr>)
   \<and> status (svc_a\<lparr>status := UNHEALTHY\<rparr>) = UNHEALTHY
   \<and> call_service ''a'' ''t'' JNull None (client_ab\<lparr>services := [''a'' \<mapsto> svc_a\<lparr>status := UNHEALTHY\<rparr>]\<rparr>)
          (net_of (\<lambda>n. raising TimeoutError)) =
        (Inr (MCPCallResult_new False JNull (Some (ServiceUnhealthy ''a'')) JNull),
         client_ab\<lparr>services := [''a'' \<mapsto> svc_a\<lparr>status := UNHEALTHY\<rparr>]\<rparr>,
         net_of (\<lambda>n. raising TimeoutError))"
proof -
  have n: "services client_ab ''c'' = None" by (simp add: client_ab_def)
  have u: "services (client_ab\<lparr>services := [''a'' \<mapsto> svc_a\<lparr>status := UNHEALTHY\<rparr>]\<rparr>) ''a''
        = Some (svc_a\<lparr>status := UNHEALTHY\<rparr>) \<and> status (svc_a\<lparr>status := UNHEALTHY\<rparr>) = UNHEALTHY"
    by simp
  show ?thesis
    using n u
      C5_registry_gate [of client_ab "''c''" "''t''" JNull None "net_of (\<lambda>n. raising TimeoutError)"]
      C5_registry_gate [of "client_ab\<lparr>services := [''a'' \<mapsto> svc_a\<lparr>status := UNHEALTHY\<rparr>]\<rparr>" "''a''"
         "''t''" JNull None "net_of (\<lambda>n. raising TimeoutError)"]
    by blast
qed

subsection \<open>The health probe\<close>

text \<open>
  Claim C3, as the code has it. A probe of an unregistered name returns \<open>False\<close> and
  changes nothing. A probe of a registered service sends one request to its health
  address and never raises; it returns \<open>True\<close> exactly when a response with status
  200 arrives, sets the status to \<open>HEALTHY\<close> then and to \<open>UNHEALTHY\<close> in every other
  case (an exception or any other status code), and records the time of the check.
  Every other field of the endpoint, the error count among them, is left as it was:
  the probe neither resets nor increments the count, and never sets \<open>DEGRADED\<close>.
\<close>

theorem C3_probe:
  "(services self sname = None \<longrightarrow> health_check sname self net = (Inr False, self, net))
   \<and> (\<forall>svc. services self sname = Some svc \<longrightarrow>
        (\<exists>ok net1.
           health_check sname self net =
             (Inr ok,
              self\<lparr>services := (services self)
                       (sname \<mapsto> svc\<lparr>status := (if ok then HEALTHY else UNHEALTHY), last_check := clock net1\<rparr>),
                    session := True\<rparr>,
              net1)
           \<and> net1 = snd (http_request (GET_health (health_check_url svc) 10) net)
           \<and> ok = (case outcome (replies net (length (sent net))) of
                      Inl e \<Rightarrow> False
                    | Inr response \<Rightarrow> status_code response = 200)))"
  by (auto simp: health_check_def http_request_def update_service_def Let_def split: sum.splits)

text \<open>A successful probe of \<open>b\<close>, and a probe of the unregistered \<open>c\<close>.\<close>

theorem C3_probe_witness:
  "services client_ab ''b'' = Some svc_b
   \<and> fst (health_check ''b'' client_ab (net_of (\<lambda>n. responding 200 (JObj [])))) = Inr True
   \<and> services (fst (snd (health_check ''b'' client_ab (net_of (\<lambda>n. responding 200 (JObj [])))))) ''b''
       = Some (svc_b\<lparr>status := HEALTHY, last_check := 5\<rparr>)
   \<and> services client_ab ''c'' = None
   \<and> health_check ''c'' client_ab (net_of (\<lambda>n. responding 200 (JObj [])))
       = (Inr False, client_ab, net_of (\<lambda>n. responding 200 (JObj [])))"
proof -
  have b: "services client_ab ''b'' = Some svc_b" and c: "services client_ab ''c'' = None"
    by (simp_all add: client_ab_def)
  from C3_probe [of client_ab "''b''" "net_of (\<lambda>n. responding 200 (JObj []))"] b
  obtain ok net1 where h: "health_check ''b'' client_ab (net_of (\<lambda>n. responding 200 (JObj []))) =
             (Inr ok,
              client_ab\<lparr>services := (services client_ab)
                       (''b'' \<mapsto> svc_b\<lparr>status := (if ok then HEALTHY else UNHEALTHY), last_check := clock net1\<rparr>),
                    session := True\<rparr>,
              net1)"
    and n: "net1 = snd (http_request (GET_health (health_check_url svc_b) 10) (net_of (\<lambda>n. responding 200 (JObj []))))"
    and o: "ok = (case outcome (replies (net_of (\<lambda>n. responding 200 (JObj [])))
                      (length (sent (net_of (\<lambda>n. responding 200 (JObj [])))))) of
                      Inl e \<Rightarrow> False
                    | Inr response \<Rightarrow> status_code response = 200)"
    by blast
  have ok: "ok" using o by (simp add: net_of_def responding_def)
  have c5: "clock net1 = 5" using n by (simp add: http_request_def net_of_def responding_def Let_def)
  from C3_probe [of client_ab "''c''" "net_of (\<lambda>n. responding 200 (JObj []))"] c
  have u: "health_check ''c'' client_ab (net_of (\<lambda>n. responding 200 (JObj [])))
       = (Inr False, client_ab, net_of (\<lambda>n. responding 200 (JObj [])))" by blast
  show ?thesis using b c u h ok c5 by simp
qed

text \<open>
  The claim as the specification words it fails. One refused probe of \<open>a\<close> (no error
  counted, threshold 3) leaves the count at 0 and sets \<open>UNHEALTHY\<close>, where the claim
  has the count at 1 and the status \<open>DEGRADED\<close>; a successful probe of \<open>b\<close> leaves
  its count at 2, where the claim resets it to 0.
\<close>

theorem C3_counterexample:
  "map_option error_count
     (services (fst (snd (health_check ''a'' client_ab net_refused))) ''a'')
     = Some 0
   \<and> map_option status
     (services (fst (snd (health_check ''a'' client_ab net_refused))) ''a'')
     = Some UNHEALTHY
   \<and> map_option max_errors (services client_ab ''a'') = Some 3
   \<and> map_option error_count
     (services (fst (snd (health_check ''b'' client_ab net_healthy))) ''b'')
     = Some 2"
  by (simp add: health_check_def http_request_def update_service_def Let_def scenario_defs)

subsection \<open>What a response does to the registry\<close>

lemma response_result_readable:
  assumes "status_code response = 200 \<longrightarrow> (\<exists>d. body_json response = Inr (JObj d))"
    and "status_code response \<noteq> 200 \<longrightarrow> (\<exists>t. body_text response = Inr t)"
  shows "\<exists>result net2. response_result svc tv response net1 = (Inr result, net2)"
proof (cases "status_code response = 200")
  case True
  with assms obtain d where "body_json response = Inr (JObj d)" by blast
  with True show ?thesis
    by (simp add: response_result_def Let_def split: prod.splits)
next
  case False
  with assms obtain t where "body_text response = Inr t" by blast
  with False show ?thesis by (simp add: response_result_def)
qed

text \<open>
  Claim C10, as the code has it. When the service is registered and not unhealthy,
  the \<open>/execute\<close> request is answered by an HTTP response, and the body of that
  response can be read (a JSON object when the status is 200, its text otherwise),
  \<open>call_service\<close> returns a result, sets the service's status to \<open>HEALTHY\<close>, its error
  count to 0 and its response time to the time the call took, which is also the
  result's duration.
\<close>

theorem C10_response_marks_healthy:
  assumes "services self sname = Some svc" and "status svc \<noteq> UNHEALTHY"
    and "outcome (replies net (length (sent net))) = Inr response"
    and "status_code response = 200 \<longrightarrow> (\<exists>d. body_json response = Inr (JObj d))"
    and "status_code response \<noteq> 200 \<longrightarrow> (\<exists>t. body_text response = Inr t)"
  shows "\<exists>result self1 net1.
           call_service sname tname ps tmo self net = (Inr result, self1, net1)
           \<and> services self1 sname =
               Some (svc\<lparr>response_time := clock net1 - clock net, error_count := 0, status := HEALTHY\<rparr>)
           \<and> duration result = clock net1 - clock net"
proof -
  define rq where "rq = POST_execute (url svc)
     (JObj [(''tool_name'', JStr tname), (''parameters'', ps), (''priority'', JInt 0)])
     (timeout_or tmo (timeout svc))"
  define net1 where "net1 = snd (http_request rq net)"
  have post: "http_request rq net = (Inr response, net1)"
    using assms(3) by (simp add: net1_def http_request_def Let_def)
  from response_result_readable [OF assms(4,5)]
  obtain result net2 where rr: "response_result svc (timeout_or tmo (timeout svc)) response net1 = (Inr result, net2)"
    by blast
  have "call_service_try sname tname ps tmo svc (clock net) self net =
          (Inr (result\<lparr>duration := clock net2 - clock net, service_name := Some sname, tool_name := Some tname\<rparr>),
           update_service sname
             (\<lambda>s. s\<lparr>response_time := clock net2 - clock net, error_count := 0, status := HEALTHY\<rparr>)
             (self\<lparr>session := True\<rparr>),
           net2)"
    using post rr by (simp add: call_service_try_def Let_def rq_def)
  then have "call_service sname tname ps tmo self net =
          (Inr (result\<lparr>duration := clock net2 - clock net, service_name := Some sname, tool_name := Some tname\<rparr>),
           update_service sname
             (\<lambda>s. s\<lparr>response_time := clock net2 - clock net, error_count := 0, status := HEALTHY\<rparr>)
             (self\<lparr>session := True\<rparr>),
           net2)"
    using assms(1,2) by (simp add: call_service_eq_raw call_service_raw_def Let_def)
  moreover have "services (update_service sname
             (\<lambda>s. s\<lparr>response_time := clock net2 - clock net, error_count := 0, status := HEALTHY\<rparr>)
             (self\<lparr>session := True\<rparr>)) sname
        = Some (svc\<lparr>response_time := clock net2 - clock net, error_count := 0, status := HEALTHY\<rparr>)"
    using assms(1) by (simp add: update_service_def)
  ultimately show ?thesis by simp
qed

text \<open>A response with status 500 and a readable text marks \<open>b\<close> healthy.\<close>

theorem C10_response_marks_healthy_witness:
  "services client_ab ''b'' = Some svc_b \<and> status svc_b \<noteq> UNHEALTHY
   \<and> services (fst (snd (call_service ''b'' ''t'' JNull None client_ab
                     (net_of (\<lambda>n. \<lparr>latency = 5, outcome = Inr \<lparr>status_code = 500, body_json = Inl (OtherError ''no json''),
                                                                body_text = Inr ''boom''\<rparr>\<rparr>))))) ''b''
       = Some (svc_b\<lparr>response_time := 5, error_count := 0, status := HEALTHY\<rparr>)
   \<and> success (projr (fst (call_service ''b'' ''t'' JNull None client_ab
                     (net_of (\<lambda>n. \<lparr>latency = 5, outcome = Inr \<lparr>status_code = 500, body_json = Inl (OtherError ''no json''),
                                                                body_text = Inr ''boom''\<rparr>\<rparr>))))) = False"
proof -
  let ?resp = "\<lparr>status_code = 500, body_json = Inl (OtherError ''no json''), body_text = Inr ''boom''\<rparr>"
  let ?net = "net_of (\<lambda>n. \<lparr>latency = 5, outcome = Inr ?resp\<rparr>)"
  have a: "services client_ab ''b'' = Some svc_b" by (simp add: client_ab_def)
  have b: "status svc_b \<noteq> UNHEALTHY" by (simp add: svc_b_def)
  have c: "outcome (replies ?net (length (sent ?net))) = Inr ?resp" by (simp add: net_of_def)
  have d: "status_code ?resp = 200 \<longrightarrow> (\<exists>d. body_json ?resp = Inr (JObj d))" by simp
  have e: "status_code ?resp \<noteq> 200 \<longrightarrow> (\<exists>t. body_text ?resp = Inr t)" by simp
  from C10_response_marks_healthy [OF a b c d e, of "''t''" JNull None]
  obtain result self1 net1 where
    r: "call_service ''b'' ''t'' JNull None client_ab ?net = (Inr result, self1, net1)"
    and s: "services self1 ''b'' = Some (svc_b\<lparr>response_time := clock net1 - clock ?net, error_count := 0, status := HEALTHY\<rparr>)"
    by blast
  have n: "clock net1 - clock ?net = 5" "success result = False"
    using r by (auto simp: call_service_eq_raw client_defs scenario_defs)
  show ?thesis using a b r s n by simp
qed

text \<open>
  Without the condition on the body the claim fails: a response with status 200
  whose body is the JSON array \<open>[]\<close> makes \<open>result_data.get\<close> raise, the handler
  counts an error, and \<open>b\<close>, at 2 errors of 3, becomes \<open>UNHEALTHY\<close>.
\<close>

theorem C10_counterexample:
  "map_option status (services (fst (snd
       (call_service ''b'' ''t'' JNull None client_ab net_array))) ''b'')
     = Some UNHEALTHY
   \<and> map_option error_count (services (fst (snd
       (call_service ''b'' ''t'' JNull None client_ab net_array))) ''b'')
     = Some 3"
  by (simp add: call_service_eq_raw client_defs scenario_defs no_get_def)

subsection \<open>Polling\<close>

text \<open>
  Claim C7, as the code has it. In the polling loop a poll that fails, by an
  exception or by a response whose status is not 200, ends the call at once: the
  loop returns a failed result after that one request, and polls no further.
\<close>

theorem C7_failed_poll_ends_call:
  assumes "\<not> clock net - start_time > tmo * 1000"
    and "outcome (replies net (length (sent net))) = Inl e
         \<or> (\<exists>response. outcome (replies net (length (sent net))) = Inr response \<and> status_code response \<noteq> 200)"
  shows "\<exists>r. wait_loop svc exec_id tmo start_time net = (r, snd (http_request (GET_status (url svc) exec_id) net))
           \<and> \<not> success r
           \<and> error r = Some (case outcome (replies net (length (sent net))) of
                               Inl e \<Rightarrow> StatusCheckFailed (str_exn e)
                             | Inr response \<Rightarrow> StatusHttpError (status_code response))"
  using assms
  by (subst wait_loop.simps) (auto simp: http_request_def MCPCallResult_new_def Let_def)

text \<open>One poll whose connection is reset.\<close>

theorem C7_failed_poll_ends_call_witness:
  "\<not> clock (net_of (\<lambda>n. raising (OtherError ''reset''))) - 0 > 30 * 1000
   \<and> \<not> success (fst (wait_loop svc_a (JStr ''x'') 30 0 (net_of (\<lambda>n. raising (OtherError ''reset'')))))
   \<and> error (fst (wait_loop svc_a (JStr ''x'') 30 0 (net_of (\<lambda>n. raising (OtherError ''reset'')))))
       = Some (StatusCheckFailed ''reset'')
   \<and> length (sent (snd (wait_loop svc_a (JStr ''x'') 30 0 (net_of (\<lambda>n. raising (OtherError ''reset'')))))) = 1"
proof -
  let ?net = "net_of (\<lambda>n. raising (OtherError ''reset''))"
  have a: "\<not> clock ?net - 0 > 30 * 1000" by (simp add: net_of_def)
  have b: "outcome (replies ?net (length (sent ?net))) = Inl (OtherError ''reset'')
         \<or> (\<exists>response. outcome (replies ?net (length (sent ?net))) = Inr response \<and> status_code response \<noteq> 200)"
    by (simp add: net_of_def raising_def)
  from C7_failed_poll_ends_call [OF a b, of svc_a "JStr ''x''"]
  obtain r where r: "wait_loop svc_a (JStr ''x'') 30 0 ?net = (r, snd (http_request (GET_status (url svc_a) (JStr ''x'')) ?net))"
    and f: "\<not> success r"
    and e: "error r = Some (case outcome (replies ?net (length (sent ?net))) of
                               Inl e \<Rightarrow> StatusCheckFailed (str_exn e)
                             | Inr response \<Rightarrow> StatusHttpError (status_code response))"
    by blast
  have e': "error r = Some (StatusCheckFailed ''reset'')" using e by (simp add: net_of_def raising_def)
  have l: "length (sent (snd (http_request (GET_status (url svc_a) (JStr ''x'')) ?net))) = 1"
    by (simp add: http_request_def net_of_def Let_def)
  show ?thesis using a r f e' l by simp
qed

text \<open>
  The claim of a retry budget fails: the service answers \<open>running\<close>, the first poll
  is reset, a second poll would find the work completed; the call fails after two
  requests, the \<open>POST\<close> and the one \<open>GET\<close>.
\<close>

theorem C7_counterexample:
  "success (projr (fst (call_service ''a'' ''t'' JNull None client_ab net_poll_fails))) = False
   \<and> error (projr (fst (call_service ''a'' ''t'' JNull None client_ab net_poll_fails)))
       = Some (StatusCheckFailed ''reset'')
   \<and> sent (snd (snd (call_service ''a'' ''t'' JNull None client_ab net_poll_fails)))
       = [POST_execute ''http://localhost:8001''
            (JObj [(''tool_name'', JStr ''t''), (''parameters'', JNull), (''priority'', JInt 0)]) 30,
          GET_status ''http://localhost:8001'' (JStr ''x'')]"
  by (simp add: call_service_eq_raw client_defs scenario_defs)

subsection \<open>The two ways a call completes\<close>

lemma last_body_after:
  assumes "http_request rq net = (o1, n1)"
  shows "last_body n1 =
           (case o1 of
              Inl e \<Rightarrow> None
            | Inr response \<Rightarrow>
                if status_code response = 200
                then (case body_json response of Inr (JObj d) \<Rightarrow> Some d | _ \<Rightarrow> None)
                else None)"
    and "replies n1 = replies net" and "length (sent n1) = Suc (length (sent net))"
  using assms by (auto simp: http_request_def last_body_def Let_def)

lemma last_body_sleep: "last_body (sleep ms net) = last_body net"
  by (simp add: last_body_def sleep_def)

lemma wait_loop_result:
  "wait_loop svc exec_id tmo start_time net = (r, net1) \<Longrightarrow>
     replies net1 = replies net
     \<and> ((net1 = net \<and> \<not> success r)
        \<or> (length (sent net) < length (sent net1)
            \<and> (case last_body net1 of
                  None \<Rightarrow> \<not> success r
                | Some sd \<Rightarrow>
                    if dict_get sd ''status'' JNull = JStr ''completed''
                    then success r \<and> error r = None \<and> execution_id r = exec_id
                         \<and> data r = dict_get sd ''result'' JNull
                    else if dict_get sd ''status'' JNull = JStr ''failed''
                    then \<not> success r \<and> execution_id r = exec_id
                         \<and> error r = remote_error (dict_get sd ''error'' (JStr ''Execution failed''))
                    else \<not> success r)))"
proof (induction svc exec_id tmo start_time net rule: wait_loop.induct)
  case (1 svc exec_id tmo start_time net)
  show ?case
  proof (cases "clock net - start_time > tmo * 1000")
    case True
    with "1.prems" show ?thesis
      by (subst (asm) wait_loop.simps) (auto simp: MCPCallResult_new_def)
  next
    case False
    obtain o1 n1 where rq: "http_request (GET_status (url svc) exec_id) net = (o1, n1)"
      by (cases "http_request (GET_status (url svc) exec_id) net")
    note lb = last_body_after [OF rq]
    show ?thesis
    proof (cases o1)
      case (Inl e)
      with "1.prems" False rq have "net1 = n1" "\<not> success r"
        by (subst (asm) wait_loop.simps; auto simp: MCPCallResult_new_def)+
      then show ?thesis using lb Inl by simp
    next
      case (Inr response)
      note resp = Inr
      show ?thesis
      proof (cases "status_code response = 200")
        case False
        with "1.prems" \<open>\<not> clock net - start_time > tmo * 1000\<close> rq resp
        have "net1 = n1" "\<not> success r"
          by (subst (asm) wait_loop.simps; auto simp: MCPCallResult_new_def)+
        then show ?thesis using lb resp False by simp
      next
        case ok: True
        show ?thesis
        proof (cases "body_json response")
          case (Inl e)
          with "1.prems" False rq resp ok have "net1 = n1" "\<not> success r"
            by (subst (asm) wait_loop.simps; auto simp: MCPCallResult_new_def)+
          then show ?thesis using lb resp ok Inl by simp
        next
          case (Inr v)
          show ?thesis
          proof (cases "\<exists>sd. v = JObj sd")
            case nd: False
            with "1.prems" False rq resp ok Inr have "net1 = n1" "\<not> success r"
              by (subst (asm) wait_loop.simps; cases v; auto simp: MCPCallResult_new_def)+
            then show ?thesis using lb resp ok Inr nd by (cases v) simp_all
          next
            case True
            then obtain sd where v: "v = JObj sd" by blast
            have lbn: "last_body n1 = Some sd" using lb(1) resp ok Inr v by simp
            let ?st = "dict_get sd ''status'' JNull"
            consider (c) "?st = JStr ''completed''" | (f) "?st = JStr ''failed''"
              | (x) "?st = JStr ''cancelled''"
              | (w) "?st \<noteq> JStr ''completed''" "?st \<noteq> JStr ''failed''" "?st \<noteq> JStr ''cancelled''"
              by blast
            then show ?thesis
            proof cases
              case c
              with "1.prems" False rq resp ok Inr v
              have "net1 = n1" "r = MCPCallResult_new True (dict_get sd ''result'' JNull) None exec_id"
                by (subst (asm) wait_loop.simps; auto simp: Let_def)+
              then show ?thesis using lb(2,3) lbn c by (simp add: MCPCallResult_new_def)
            next
              case f
              with "1.prems" False rq resp ok Inr v
              have "net1 = n1"
                "r = MCPCallResult_new False JNull
                       (remote_error (dict_get sd ''error'' (JStr ''Execution failed''))) exec_id"
                by (subst (asm) wait_loop.simps; auto simp: Let_def)+
              then show ?thesis using lb(2,3) lbn f by (simp add: MCPCallResult_new_def)
            next
              case x
              with "1.prems" False rq resp ok Inr v
              have "net1 = n1" "\<not> success r"
                by (subst (asm) wait_loop.simps; auto simp: Let_def MCPCallResult_new_def)+
              then show ?thesis using lb(2,3) lbn x by simp
            next
              case w
              have rec: "wait_loop svc exec_id tmo start_time (sleep 2000 n1) = (r, net1)"
                using "1.prems"(1) False rq resp ok Inr v w
                by (subst (asm) wait_loop.simps) (simp add: Let_def)
              note ih = "1.IH" [OF False rq [symmetric] resp ok Inr v refl _ _ _ rec]
              have ih': "replies net1 = replies (sleep 2000 n1)
                 \<and> ((net1 = sleep 2000 n1 \<and> \<not> success r)
                    \<or> (length (sent (sleep 2000 n1)) < length (sent net1)
                        \<and> (case last_body net1 of
                              None \<Rightarrow> \<not> success r
                            | Some sd \<Rightarrow>
                                if dict_get sd ''status'' JNull = JStr ''completed''
                                then success r \<and> error r = None \<and> execution_id r = exec_id
                                     \<and> data r = dict_get sd ''result'' JNull
                                else if dict_get sd ''status'' JNull = JStr ''failed''
                                then \<not> success r \<and> execution_id r = exec_id
                                     \<and> error r = remote_error (dict_get sd ''error'' (JStr ''Execution failed''))
                                else \<not> success r)))"
                using ih w by simp
              have sl: "replies (sleep 2000 n1) = replies net" "length (sent (sleep 2000 n1)) = Suc (length (sent net))"
                using lb(2,3) by (simp_all add: sleep_def)
              from ih' show ?thesis
              proof (elim conjE disjE)
                assume "replies net1 = replies (sleep 2000 n1)" "net1 = sleep 2000 n1" "\<not> success r"
                then show ?thesis using sl lbn w by (simp add: last_body_sleep)
              next
                assume "replies net1 = replies (sleep 2000 n1)" "length (sent (sleep 2000 n1)) < length (sent net1)"
                  and p: "case last_body net1 of
                              None \<Rightarrow> \<not> success r
                            | Some sd \<Rightarrow>
                                if dict_get sd ''status'' JNull = JStr ''completed''
                                then success r \<and> error r = None \<and> execution_id r = exec_id
                                     \<and> data r = dict_get sd ''result'' JNull
                                else if dict_get sd ''status'' JNull = JStr ''failed''
                                then \<not> success r \<and> execution_id r = exec_id
                                     \<and> error r = remote_error (dict_get sd ''error'' (JStr ''Execution failed''))
                                else \<not> success r"
                then have "replies net1 = replies net" "length (sent net) < length (sent net1)"
                  using sl by simp_all
                then show ?thesis using p by blast
              qed
            qed
          qed
        qed
      qed
    qed
  qed
qed

lemma call_service_on_response:
  assumes "services self sname = Some svc" and "status svc \<noteq> UNHEALTHY"
    and "outcome (replies net (length (sent net))) = Inr response"
    and "response_result svc (timeout_or tmo (timeout svc)) response
           (snd (http_request (POST_execute (url svc)
              (JObj [(''tool_name'', JStr tname), (''parameters'', ps), (''priority'', JInt 0)])
              (timeout_or tmo (timeout svc))) net)) = (Inr result, net2)"
  shows "call_service sname tname ps tmo self net =
          (Inr (result\<lparr>duration := clock net2 - clock net, service_name := Some sname, tool_name := Some tname\<rparr>),
           update_service sname
             (\<lambda>s. s\<lparr>response_time := clock net2 - clock net, error_count := 0, status := HEALTHY\<rparr>)
             (self\<lparr>session := True\<rparr>),
           net2)"
proof -
  define rq where "rq = POST_execute (url svc)
     (JObj [(''tool_name'', JStr tname), (''parameters'', ps), (''priority'', JInt 0)])
     (timeout_or tmo (timeout svc))"
  define netp where "netp = snd (http_request rq net)"
  have post: "http_request rq net = (Inr response, netp)"
    using assms(3) by (simp add: netp_def http_request_def Let_def)
  have rr: "response_result svc (timeout_or tmo (timeout svc)) response netp = (Inr result, net2)"
    using assms(4) by (simp add: netp_def rq_def)
  have "call_service_try sname tname ps tmo svc (clock net) self net =
          (Inr (result\<lparr>duration := clock net2 - clock net, service_name := Some sname, tool_name := Some tname\<rparr>),
           update_service sname
             (\<lambda>s. s\<lparr>response_time := clock net2 - clock net, error_count := 0, status := HEALTHY\<rparr>)
             (self\<lparr>session := True\<rparr>),
           net2)"
    using post rr by (simp add: call_service_try_def Let_def rq_def)
  then show ?thesis
    using assms(1,2) by (simp add: call_service_eq_raw call_service_raw_def Let_def)
qed

text \<open>
  Claim C2, as the code has it. Take a service that is registered and not unhealthy
  and a response to \<open>/execute\<close> with status 200 and a JSON object as body.

  Immediate path: if the body's \<open>status\<close> is anything but \<open>running\<close>, whatever it
  says, the call returns \<open>success=True\<close> with no error, the body's \<open>execution_id\<close>
  and the whole body as \<open>data\<close>.

  Polling path: if the body's \<open>status\<close> is \<open>running\<close> and it carries an execution
  id, the result is decided by the last status body polled. When that body says
  \<open>completed\<close> the call returns \<open>success=True\<close> with no error, the execution id
  polled and the body's \<open>result\<close> field alone as \<open>data\<close>; when it says \<open>failed\<close> the
  call returns \<open>success=False\<close> with the body's \<open>error\<close>; in every other case
  (cancelled, timed out, a poll that failed) it returns \<open>success=False\<close>.

  So for completed work the two paths agree on the success flag, the error and
  the execution id and differ in the shape of \<open>data\<close>; for work whose body says
  \<open>failed\<close> they differ in the success flag too.
\<close>

theorem C2_two_paths:
  assumes "services self sname = Some svc" and "status svc \<noteq> UNHEALTHY"
    and "outcome (replies net (length (sent net))) = Inr response"
    and "status_code response = 200" and "body_json response = Inr (JObj d)"
  shows "(dict_get d ''status'' JNull \<noteq> JStr ''running'' \<longrightarrow>
            (\<exists>r self1 net1. call_service sname tname ps tmo self net = (Inr r, self1, net1)
               \<and> success r \<and> error r = None
               \<and> execution_id r = dict_get d ''execution_id'' JNull
               \<and> data r = JObj d))
       \<and> (dict_get d ''status'' JNull = JStr ''running'' \<and> truthy (dict_get d ''execution_id'' JNull) \<longrightarrow>
            (\<exists>r self1 net1. call_service sname tname ps tmo self net = (Inr r, self1, net1)
               \<and> replies net1 = replies net
               \<and> (case last_body net1 of
                     None \<Rightarrow> \<not> success r
                   | Some sd \<Rightarrow>
                       if dict_get sd ''status'' JNull = JStr ''completed''
                       then success r \<and> error r = None
                            \<and> execution_id r = dict_get d ''execution_id'' JNull
                            \<and> data r = dict_get sd ''result'' JNull
                       else if dict_get sd ''status'' JNull = JStr ''failed''
                       then \<not> success r \<and> execution_id r = dict_get d ''execution_id'' JNull
                            \<and> error r = remote_error (dict_get sd ''error'' (JStr ''Execution failed''))
                       else \<not> success r)))"
proof (intro conjI impI)
  define rq where "rq = POST_execute (url svc)
     (JObj [(''tool_name'', JStr tname), (''parameters'', ps), (''priority'', JInt 0)])
     (timeout_or tmo (timeout svc))"
  define netp where "netp = snd (http_request rq net)"
  have post: "http_request rq net = (Inr response, netp)"
    using assms(3) by (simp add: netp_def http_request_def Let_def)
  note lbp = last_body_after [OF post]
  {
    assume nr: "dict_get d ''status'' JNull \<noteq> JStr ''running''"
    have "response_result svc (timeout_or tmo (timeout svc)) response netp
            = (Inr (MCPCallResult_new True (JObj d) None (dict_get d ''execution_id'' JNull)), netp)"
      using assms(4,5) nr by (simp add: response_result_def)
    from call_service_on_response [OF assms(1,2,3) this [unfolded netp_def rq_def]]
    show "\<exists>r self1 net1. call_service sname tname ps tmo self net = (Inr r, self1, net1)
               \<and> success r \<and> error r = None
               \<and> execution_id r = dict_get d ''execution_id'' JNull
               \<and> data r = JObj d"
      by (simp add: MCPCallResult_new_def)
  }
  {
    assume run: "dict_get d ''status'' JNull = JStr ''running'' \<and> truthy (dict_get d ''execution_id'' JNull)"
    let ?x = "dict_get d ''execution_id'' JNull"
    obtain result net2 where w: "wait_loop svc ?x (timeout_or tmo (timeout svc)) (clock netp) netp = (result, net2)"
      by (cases "wait_loop svc ?x (timeout_or tmo (timeout svc)) (clock netp) netp")
    have "response_result svc (timeout_or tmo (timeout svc)) response netp = (Inr result, net2)"
      using assms(4,5) run w by (simp add: response_result_def wait_for_completion_def Let_def)
    from call_service_on_response [OF assms(1,2,3) this [unfolded netp_def rq_def]]
    have cs: "call_service sname tname ps tmo self net =
          (Inr (result\<lparr>duration := clock net2 - clock net, service_name := Some sname, tool_name := Some tname\<rparr>),
           update_service sname
             (\<lambda>s. s\<lparr>response_time := clock net2 - clock net, error_count := 0, status := HEALTHY\<rparr>)
             (self\<lparr>session := True\<rparr>),
           net2)" .
    have lbd: "last_body netp = Some d" using lbp(1) assms(4,5) by simp
    from wait_loop_result [OF w] have rep: "replies net2 = replies netp"
      and alt: "(net2 = netp \<and> \<not> success result)
        \<or> (length (sent netp) < length (sent net2)
            \<and> (case last_body net2 of
                  None \<Rightarrow> \<not> success result
                | Some sd \<Rightarrow>
                    if dict_get sd ''status'' JNull = JStr ''completed''
                    then success result \<and> error result = None \<and> execution_id result = ?x
                         \<and> data result = dict_get sd ''result'' JNull
                    else if dict_get sd ''status'' JNull = JStr ''failed''
                    then \<not> success result \<and> execution_id result = ?x
                         \<and> error result = remote_error (dict_get sd ''error'' (JStr ''Execution failed''))
                    else \<not> success result))"
      by blast+
    have p: "case last_body net2 of
                  None \<Rightarrow> \<not> success result
                | Some sd \<Rightarrow>
                    if dict_get sd ''status'' JNull = JStr ''completed''
                    then success result \<and> error result = None \<and> execution_id result = ?x
                         \<and> data result = dict_get sd ''result'' JNull
                    else if dict_get sd ''status'' JNull = JStr ''failed''
                    then \<not> success result \<and> execution_id result = ?x
                         \<and> error result = remote_error (dict_get sd ''error'' (JStr ''Execution failed''))
                    else \<not> success result"
      using alt
    proof
      assume "net2 = netp \<and> \<not> success result"
      then show ?thesis using lbd run by simp
    next
      assume "length (sent netp) < length (sent net2)
            \<and> (case last_body net2 of
                  None \<Rightarrow> \<not> success result
                | Some sd \<Rightarrow>
                    if dict_get sd ''status'' JNull = JStr ''completed''
                    then success result \<and> error result = None \<and> execution_id result = ?x
                         \<and> data result = dict_get sd ''result'' JNull
                    else if dict_get sd ''status'' JNull = JStr ''failed''
                    then \<not> success result \<and> execution_id result = ?x
                         \<and> error result = remote_error (dict_get sd ''error'' (JStr ''Execution failed''))
                    else \<not> success result)"
      then show ?thesis by blast
    qed
    have rep': "replies net2 = replies net" using rep lbp(2) by simp
    show "\<exists>r self1 net1. call_service sname tname ps tmo self net = (Inr r, self1, net1)
               \<and> replies net1 = replies net
               \<and> (case last_body net1 of
                     None \<Rightarrow> \<not> success r
                   | Some sd \<Rightarrow>
                       if dict_get sd ''status'' JNull = JStr ''completed''
                       then success r \<and> error r = None
                            \<and> execution_id r = dict_get d ''execution_id'' JNull
                            \<and> data r = dict_get sd ''result'' JNull
                       else if dict_get sd ''status'' JNull = JStr ''failed''
                       then \<not> success r \<and> execution_id r = dict_get d ''execution_id'' JNull
                            \<and> error r = remote_error (dict_get sd ''error'' (JStr ''Execution failed''))
                       else \<not> success r)"
      using cs rep' p by (auto split: option.splits if_splits)
  }
qed

text \<open>Completed work answered at once and found at the first poll, and failed work
  found at the first poll.\<close>

theorem C2_two_paths_witness:
  "success (projr (fst (call_service ''a'' ''t'' JNull None client_ab net_immediate)))
   \<and> execution_id (projr (fst (call_service ''a'' ''t'' JNull None client_ab net_immediate))) = JStr ''x''
   \<and> data (projr (fst (call_service ''a'' ''t'' JNull None client_ab net_immediate))) = body_completed
   \<and> success (projr (fst (call_service ''a'' ''t'' JNull None client_ab net_polling)))
   \<and> execution_id (projr (fst (call_service ''a'' ''t'' JNull None client_ab net_polling))) = JStr ''x''
   \<and> error (projr (fst (call_service ''a'' ''t'' JNull None client_ab net_polling))) = None
   \<and> data (projr (fst (call_service ''a'' ''t'' JNull None client_ab net_polling))) = JObj [(''risk'', JInt 7)]
   \<and> \<not> success (projr (fst (call_service ''a'' ''t'' JNull None client_ab net_polling_failed)))
   \<and> error (projr (fst (call_service ''a'' ''t'' JNull None client_ab net_polling_failed)))
       = Some (RemoteError (JStr ''boom''))"
proof -
  have a: "services client_ab ''a'' = Some svc_a" "status svc_a \<noteq> UNHEALTHY"
    by (simp_all add: client_ab_def svc_a_def)
  let ?ri = "\<lparr>status_code = 200, body_json = Inr body_completed, body_text = Inr []\<rparr>"
  let ?rp = "\<lparr>status_code = 200, body_json = Inr body_running, body_text = Inr []\<rparr>"
  let ?di = "[(''status'', JStr ''completed''), (''result'', JObj [(''risk'', JInt 7)]), (''execution_id'', JStr ''x'')]"
  let ?df = "[(''status'', JStr ''failed''), (''error'', JStr ''boom''), (''execution_id'', JStr ''x'')]"
  let ?dp = "[(''status'', JStr ''running''), (''execution_id'', JStr ''x'')]"
  have i: "outcome (replies net_immediate (length (sent net_immediate))) = Inr ?ri"
    "status_code ?ri = 200" "body_json ?ri = Inr (JObj ?di)"
    by (simp_all add: scenario_defs)
  have p: "outcome (replies net_polling (length (sent net_polling))) = Inr ?rp"
    "status_code ?rp = 200" "body_json ?rp = Inr (JObj ?dp)"
    by (simp_all add: scenario_defs)
  have f: "outcome (replies net_polling_failed (length (sent net_polling_failed))) = Inr ?rp"
    by (simp add: scenario_defs)
  have di: "dict_get ?di ''status'' JNull \<noteq> JStr ''running''" "dict_get ?di ''execution_id'' JNull = JStr ''x''"
    by (simp_all add: dict_get_def)
  have dp: "dict_get ?dp ''status'' JNull = JStr ''running'' \<and> truthy (dict_get ?dp ''execution_id'' JNull)"
    "dict_get ?dp ''execution_id'' JNull = JStr ''x''"
    by (simp_all add: dict_get_def)
  from C2_two_paths [OF a i, of "''t''" JNull None] di
  have 1: "success (projr (fst (call_service ''a'' ''t'' JNull None client_ab net_immediate)))
   \<and> execution_id (projr (fst (call_service ''a'' ''t'' JNull None client_ab net_immediate))) = JStr ''x''
   \<and> data (projr (fst (call_service ''a'' ''t'' JNull None client_ab net_immediate))) = body_completed"
    by (auto simp: body_completed_def)
  have lbp: "last_body (snd (snd (call_service ''a'' ''t'' JNull None client_ab net_polling))) = Some ?di"
    by (simp add: call_service_eq_raw client_defs scenario_defs last_body_def)
  have lbf: "last_body (snd (snd (call_service ''a'' ''t'' JNull None client_ab net_polling_failed))) = Some ?df"
    by (simp add: call_service_eq_raw client_defs scenario_defs last_body_def)
  from C2_two_paths [OF a p, of "''t''" JNull None] dp lbp
  have 2: "success (projr (fst (call_service ''a'' ''t'' JNull None client_ab net_polling)))
   \<and> execution_id (projr (fst (call_service ''a'' ''t'' JNull None client_ab net_polling))) = JStr ''x''
   \<and> error (projr (fst (call_service ''a'' ''t'' JNull None client_ab net_polling))) = None
   \<and> data (projr (fst (call_service ''a'' ''t'' JNull None client_ab net_polling))) = JObj [(''risk'', JInt 7)]"
    by (auto simp: dict_get_def)
  from C2_two_paths [OF a f p(2,3), of "''t''" JNull None] dp lbf
  have 3: "\<not> success (projr (fst (call_service ''a'' ''t'' JNull None client_ab net_polling_failed)))
   \<and> error (projr (fst (call_service ''a'' ''t'' JNull None client_ab net_polling_failed)))
       = Some (RemoteError (JStr ''boom''))"
    by (auto simp: dict_get_def remote_error_def)
  show ?thesis using 1 2 3 by simp
qed

text \<open>
  The two results can be told apart. For the same completed work with result
  \<open>{"risk": 7}\<close> the immediate path hands the caller the whole response body, the
  polling path the result alone. For the same failed work with error \<open>boom\<close> the
  immediate path reports success with no error, the polling path failure with
  that error.
\<close>

theorem C2_counterexample:
  "data (projr (fst (call_service ''a'' ''t'' JNull None client_ab net_immediate)))
     \<noteq> data (projr (fst (call_service ''a'' ''t'' JNull None client_ab net_polling)))
   \<and> data (projr (fst (call_service ''a'' ''t'' JNull None client_ab net_immediate))) = body_completed
   \<and> data (projr (fst (call_service ''a'' ''t'' JNull None client_ab net_polling))) = JObj [(''risk'', JInt 7)]
   \<and> success (projr (fst (call_service ''a'' ''t'' JNull None client_ab net_immediate)))
   \<and> success (projr (fst (call_service ''a'' ''t'' JNull None client_ab net_polling)))
   \<and> success (projr (fst (call_service ''a'' ''t'' JNull None client_ab net_immediate_failed)))
   \<and> \<not> success (projr (fst (call_service ''a'' ''t'' JNull None client_ab net_polling_failed)))
   \<and> error (projr (fst (call_service ''a'' ''t'' JNull None client_ab net_immediate_failed))) = None
   \<and> error (projr (fst (call_service ''a'' ''t'' JNull None client_ab net_polling_failed)))
       = Some (RemoteError (JStr ''boom''))"
  by (simp add: call_service_eq_raw client_defs scenario_defs remote_error_def)

subsection \<open>The error threshold\<close>

text \<open>
  Claim C4 at a failing input. Service \<open>b\<close> has counted 2 errors of a threshold of 3
  and is \<open>HEALTHY\<close>. A call that times out brings the count to 3, yet the status
  stays \<open>HEALTHY\<close>: the \<open>asyncio.TimeoutError\<close> handler increments the count without
  the threshold test that the handler for other exceptions makes. The next call is
  not refused: a second request goes out.
\<close>

theorem C4_timeouts_leave_circuit_closed:
  "map_option error_count (services (fst (snd
      (call_service ''b'' ''t'' JNull None client_ab net_timing_out))) ''b'') = Some 3
   \<and> map_option max_errors (services (fst (snd
      (call_service ''b'' ''t'' JNull None client_ab net_timing_out))) ''b'') = Some 3
   \<and> map_option status (services (fst (snd
      (call_service ''b'' ''t'' JNull None client_ab net_timing_out))) ''b'') = Some HEALTHY
   \<and> length (sent (snd (snd
      (call_service ''b'' ''t'' JNull None
         (fst (snd (call_service ''b'' ''t'' JNull None client_ab net_timing_out)))
         (snd (snd (call_service ''b'' ''t'' JNull None client_ab net_timing_out))))))) = 2"
  by (simp add: call_service_eq_raw client_defs scenario_defs)


section \<open>Properties of the engine\<close>

subsection \<open>One step\<close>

lemma execute_step_summary:
  assumes "i < length (steps inst)" and "execute_step i inst rt = (x, inst', rt')"
  shows "inst' = inst\<lparr>steps := (steps inst)[i := steps inst' ! i]\<rparr>"
    and "step_id (steps inst' ! i) = step_id (steps inst ! i)"
    and "step_status (steps inst' ! i) = (if x = None then COMPLETED else FAILED)"
    and "x = Some e \<Longrightarrow> step_error (steps inst' ! i) = Some e"
    and "status_writes rt' = status_writes rt
            @ step_writes (inst_id inst) i (if x = None then COMPLETED else FAILED)"
  using assms
  by (auto simp: execute_step_def set_status_def update_step_def finish_step_def step_writes_def Let_def
        split: prod.splits sum.splits if_splits)

lemma execute_step_frame:
  assumes "i < length (steps inst)" and "execute_step i inst rt = (x, inst', rt')"
  shows "length (steps inst') = length (steps inst)"
    and "inst_id inst' = inst_id inst"
    and "j \<noteq> i \<Longrightarrow> steps inst' ! j = steps inst ! j"
proof -
  have eq: "inst' = inst\<lparr>steps := (steps inst)[i := steps inst' ! i]\<rparr>"
    by (rule execute_step_summary(1) [OF assms])
  show "length (steps inst') = length (steps inst)" by (subst eq) simp
  show "inst_id inst' = inst_id inst" by (subst eq) simp
  show "j \<noteq> i \<Longrightarrow> steps inst' ! j = steps inst ! j" by (subst eq) simp
qed

lemma distinct_map_imp_distinct: "distinct (map f xs) \<Longrightarrow> distinct xs"
  by (simp add: distinct_map)

lemma run_inv_step_completed:
  assumes inv: "run_inv W0 iid steps0 order completed inst rt"
    and i: "i < length steps0"
    and fresh: "step_id (steps inst ! i) \<notin> completed"
    and ex: "execute_step i inst rt = (None, inst1, rt1)"
  shows "run_inv W0 iid steps0 (order @ [i]) (insert (step_id (steps inst ! i)) completed)
           (inst1\<lparr>current_step := Some (step_id (steps inst ! i))\<rparr>) rt1"
proof -
  have len: "length (steps inst) = length steps0" and iid: "inst_id inst = iid"
    and ids: "\<forall>j<length steps0. step_id (steps inst ! j) = step_id (steps0 ! j)"
    and comp: "completed = (\<lambda>i. step_id (steps0 ! i)) ` set order"
    using inv by (simp_all add: run_inv_def)
  have i': "i < length (steps inst)" using i len by simp
  note s = execute_step_summary [OF i' ex] and f = execute_step_frame [OF i' ex]
  have notin: "i \<notin> set order"
    using fresh ids i comp by auto
  have idi: "step_id (steps inst ! i) = step_id (steps0 ! i)" using ids i by simp
  show ?thesis
    unfolding run_inv_def
  proof (intro conjI)
    show "status_writes rt1 = W0 @ completed_writes iid (order @ [i])"
      using s(5) inv iid by (simp add: run_inv_def completed_writes_def)
    show "inst_id (inst1\<lparr>current_step := Some (step_id (steps inst ! i))\<rparr>) = iid"
      using f(2) iid by simp
    show "length (steps (inst1\<lparr>current_step := Some (step_id (steps inst ! i))\<rparr>)) = length steps0"
      using f(1) len by simp
    show "set (order @ [i]) \<subseteq> {..<length steps0}"
      using inv i by (simp add: run_inv_def)
    show "distinct (map (\<lambda>i. step_id (steps0 ! i)) (order @ [i]))"
      using inv fresh idi comp by (auto simp: run_inv_def)
    show "insert (step_id (steps inst ! i)) completed = (\<lambda>i. step_id (steps0 ! i)) ` set (order @ [i])"
      using comp idi by auto
    show "\<forall>j<length steps0. step_id (steps (inst1\<lparr>current_step := Some (step_id (steps inst ! i))\<rparr>) ! j)
            = step_id (steps0 ! j)"
    proof (intro allI impI)
      fix j assume "j < length steps0"
      then show "step_id (steps (inst1\<lparr>current_step := Some (step_id (steps inst ! i))\<rparr>) ! j) = step_id (steps0 ! j)"
        using s(2) f(3) [of j] ids by (cases "j = i") auto
    qed
    show "\<forall>j\<in>set (order @ [i]). step_status (steps (inst1\<lparr>current_step := Some (step_id (steps inst ! i))\<rparr>) ! j)
            = COMPLETED"
    proof
      fix j assume "j \<in> set (order @ [i])"
      then show "step_status (steps (inst1\<lparr>current_step := Some (step_id (steps inst ! i))\<rparr>) ! j) = COMPLETED"
        using s(3) f(3) [of j] inv notin by (cases "j = i") (auto simp: run_inv_def)
    qed
    show "\<forall>j<length steps0. j \<notin> set (order @ [i]) \<longrightarrow>
            steps (inst1\<lparr>current_step := Some (step_id (steps inst ! i))\<rparr>) ! j = steps0 ! j"
    proof (intro allI impI)
      fix j assume "j < length steps0" "j \<notin> set (order @ [i])"
      then show "steps (inst1\<lparr>current_step := Some (step_id (steps inst ! i))\<rparr>) ! j = steps0 ! j"
        using f(3) [of j] inv by (simp add: run_inv_def)
    qed
  qed
qed

lemma run_inv_step_failed:
  assumes inv: "run_inv W0 iid steps0 order completed inst rt"
    and i: "i < length steps0"
    and fresh: "step_id (steps inst ! i) \<notin> completed"
    and ex: "execute_step i inst rt = (Some e, inst1, rt1)"
  shows "run_fail W0 iid steps0 order i e inst1 rt1"
proof -
  have len: "length (steps inst) = length steps0" and iid: "inst_id inst = iid"
    and ids: "\<forall>j<length steps0. step_id (steps inst ! j) = step_id (steps0 ! j)"
    and comp: "completed = (\<lambda>i. step_id (steps0 ! i)) ` set order"
    using inv by (simp_all add: run_inv_def)
  have i': "i < length (steps inst)" using i len by simp
  note s = execute_step_summary [OF i' ex] and f = execute_step_frame [OF i' ex]
  have notin: "i \<notin> set order"
    using fresh ids i comp by auto
  show ?thesis
    unfolding run_fail_def
  proof (intro conjI)
    show "status_writes rt1 = W0 @ completed_writes iid order @ step_writes iid i FAILED"
      using s(5) inv iid by (simp add: run_inv_def)
    show "inst_id inst1 = iid" using f(2) iid by simp
    show "length (steps inst1) = length steps0" using f(1) len by simp
    show "set order \<subseteq> {..<length steps0}" using inv by (simp add: run_inv_def)
    show "distinct order" using inv by (auto simp: run_inv_def dest: distinct_map_imp_distinct)
    show "i < length steps0" by (rule i)
    show "i \<notin> set order" by (rule notin)
    show "\<forall>j\<in>set order. step_status (steps inst1 ! j) = COMPLETED"
    proof
      fix j assume j: "j \<in> set order"
      with notin have "j \<noteq> i" by auto
      then show "step_status (steps inst1 ! j) = COMPLETED"
        using f(3) [of j] inv j by (simp add: run_inv_def)
    qed
    show "step_status (steps inst1 ! i) = FAILED" using s(3) by simp
    show "step_error (steps inst1 ! i) = Some e" using s(4) by simp
    show "\<forall>j<length steps0. j \<notin> set order \<longrightarrow> j \<noteq> i \<longrightarrow> steps inst1 ! j = steps0 ! j"
    proof (intro allI impI)
      fix j assume "j < length steps0" "j \<notin> set order" "j \<noteq> i"
      then show "steps inst1 ! j = steps0 ! j"
        using f(3) [of j] inv by (simp add: run_inv_def)
    qed
  qed
qed

lemma scan_steps_inv:
  assumes "run_inv W0 iid steps0 order completed inst rt" and "set idxs \<subseteq> {..<length steps0}"
  shows "case scan_steps idxs completed inst rt of
           Next (c1, inst1, rt1) \<Rightarrow> \<exists>order1. run_inv W0 iid steps0 order1 c1 inst1 rt1
         | Return (c1, inst1, rt1) \<Rightarrow> False
         | Raise e (c1, inst1, rt1) \<Rightarrow> \<exists>order1 f. run_fail W0 iid steps0 order1 f e inst1 rt1"
  using assms
proof (induction idxs arbitrary: order completed inst rt)
  case Nil
  then show ?case by auto
next
  case (Cons i rest)
  have i: "i < length steps0" and rest: "set rest \<subseteq> {..<length steps0}"
    using Cons.prems(2) by auto
  have len: "length (steps inst) = length steps0"
    using Cons.prems(1) by (simp add: run_inv_def)
  show ?case
  proof (cases "step_id (steps inst ! i) \<in> completed")
    case True
    then show ?thesis using Cons.IH [OF Cons.prems(1) rest] by simp
  next
    case fresh: False
    show ?thesis
    proof (cases "\<forall>dep \<in> set (dependencies (steps inst ! i)). dep \<in> completed")
      case False
      then show ?thesis using fresh Cons.IH [OF Cons.prems(1) rest] by (auto simp: Let_def)
    next
      case ready: True
      obtain x inst1 rt1 where ex: "execute_step i inst rt = (x, inst1, rt1)"
        by (cases "execute_step i inst rt")
      show ?thesis
      proof (cases x)
        case (Some e)
        from run_inv_step_failed [OF Cons.prems(1) i fresh ex [unfolded Some]]
        show ?thesis using fresh ready ex Some by (auto simp: Let_def)
      next
        case None
        note inv1 = run_inv_step_completed [OF Cons.prems(1) i fresh ex [unfolded None]]
        have st: "step_status (steps inst1 ! i) = COMPLETED"
          using execute_step_summary(3) [OF _ ex] i len None by simp
        show ?thesis
          using fresh ready ex None st Cons.IH [OF inv1 rest] by (simp add: Let_def)
      qed
    qed
  qed
qed


lemma run_inv_all_done:
  assumes "run_inv W0 iid steps0 order completed inst rt"
    and "\<not> card completed < length (steps inst)"
  shows "set order = {..<length steps0}"
proof -
  have d: "distinct (map (\<lambda>i. step_id (steps0 ! i)) order)"
    and c: "completed = set (map (\<lambda>i. step_id (steps0 ! i)) order)"
    and sub: "set order \<subseteq> {..<length steps0}"
    and len: "length (steps inst) = length steps0"
    using assms(1) by (simp_all add: run_inv_def)
  have "card completed = length order"
    using distinct_card [OF d] c by simp
  moreover have "card (set order) = length order"
    using d by (simp add: distinct_card distinct_map)
  ultimately have "card {..<length steps0} \<le> card (set order)"
    using assms(2) len by simp
  then show ?thesis
    using sub by (simp add: card_seteq)
qed

lemma run_inv_none_done:
  assumes "run_inv W0 iid steps0 order completed inst rt" and "card completed = 0"
  shows "order = []"
proof -
  have "completed = (\<lambda>i. step_id (steps0 ! i)) ` set order"
    using assms(1) by (simp add: run_inv_def)
  then have "finite completed" by simp
  with assms(2) have "completed = {}" by simp
  then show ?thesis
    using assms(1) by (simp add: run_inv_def)
qed

lemma while_steps_inv:
  assumes "run_inv W0 iid steps0 order completed inst rt"
    and "while_steps fuel completed inst rt = Inr res"
  shows "case res of
           Next (inst1, rt1) \<Rightarrow>
             \<exists>order1 c1. run_inv W0 iid steps0 order1 c1 inst1 rt1 \<and> set order1 = {..<length steps0}
         | Return (inst1, rt1) \<Rightarrow>
             (\<exists>c1. run_inv W0 iid steps0 [] c1 inst1 rt1) \<and> inst_status inst1 = W_FAILED
         | Raise e (inst1, rt1) \<Rightarrow> \<exists>order1 f. run_fail W0 iid steps0 order1 f e inst1 rt1"
  using assms
proof (induction fuel arbitrary: order completed inst rt res)
  case 0
  show ?case
  proof (cases "card completed < length (steps inst)")
    case True
    with "0.prems"(2) show ?thesis by simp
  next
    case False
    with "0.prems"(2) have "res = Next (inst, rt)" by simp
    then show ?thesis
      using "0.prems"(1) run_inv_all_done [OF "0.prems"(1) False] by auto
  qed
next
  case (Suc n)
  show ?case
  proof (cases "card completed < length (steps inst)")
    case False
    with Suc.prems(2) have "res = Next (inst, rt)" by simp
    then show ?thesis
      using Suc.prems(1) run_inv_all_done [OF Suc.prems(1) False] by auto
  next
    case True
    have len: "length (steps inst) = length steps0"
      using Suc.prems(1) by (simp add: run_inv_def)
    have idx: "set [0..<length (steps inst)] \<subseteq> {..<length steps0}"
      using len by auto
    note sc = scan_steps_inv [OF Suc.prems(1) idx]
    show ?thesis
    proof (cases "scan_steps [0..<length (steps inst)] completed inst rt")
      case (Raise e st)
      obtain c1 inst1 rt1 where st: "st = (c1, inst1, rt1)" by (cases st)
      have "res = Raise e (inst1, rt1)"
        using Suc.prems(2) True Raise st by simp
      then show ?thesis using sc Raise st by simp
    next
      case (Return st)
      obtain c1 inst1 rt1 where st: "st = (c1, inst1, rt1)" by (cases st)
      then show ?thesis using sc Return by simp
    next
      case (Next st)
      obtain c1 inst1 rt1 where st: "st = (c1, inst1, rt1)" by (cases st)
      from sc Next st obtain order1 where inv1: "run_inv W0 iid steps0 order1 c1 inst1 rt1"
        by auto
      show ?thesis
      proof (cases "card c1 = 0")
        case z: True
        have r: "res = Return (inst1\<lparr>inst_status := W_FAILED, inst_end_time := Some (now rt1)\<rparr>, rt1)"
          using Suc.prems(2) True Next st z by simp
        have "order1 = []" by (rule run_inv_none_done [OF inv1 z])
        then have "run_inv W0 iid steps0 [] c1 (inst1\<lparr>inst_status := W_FAILED, inst_end_time := Some (now rt1)\<rparr>) rt1"
          using inv1 by (simp add: run_inv_def)
        then show ?thesis using r by auto
      next
        case nz: False
        have r: "while_steps n c1 inst1 (rt1\<lparr>now := now rt1 + 100\<rparr>) = Inr res"
          using Suc.prems(2) True Next st nz by simp
        have "run_inv W0 iid steps0 order1 c1 inst1 (rt1\<lparr>now := now rt1 + 100\<rparr>)"
          using inv1 by (simp add: run_inv_def)
        from Suc.IH [OF this r] show ?thesis .
      qed
    qed
  qed
qed

lemma execute_workflow_summary:
  assumes "workflow_instances self iid = Some inst0"
    and "execute_workflow fuel iid self rt = Some (x, self1, rt1)"
  shows "\<exists>inst1. workflow_instances self1 iid = Some inst1 \<and>
           ((x = None \<and> inst_status inst1 = W_COMPLETED
               \<and> (\<exists>order c. run_inv (status_writes rt) (inst_id inst0) (steps inst0) order c inst1 rt1
                      \<and> set order = {..<length (steps inst0)}))
          \<or> (x = None \<and> inst_status inst1 = W_FAILED
               \<and> (\<exists>c. run_inv (status_writes rt) (inst_id inst0) (steps inst0) [] c inst1 rt1))
          \<or> (\<exists>e order f. x = Some e \<and> inst_status inst1 = W_FAILED
               \<and> run_fail (status_writes rt) (inst_id inst0) (steps inst0) order f e inst1 rt1))"
proof -
  let ?inst = "inst0\<lparr>inst_status := W_RUNNING, inst_start_time := Some (now rt)\<rparr>"
  have inv0: "run_inv (status_writes rt) (inst_id inst0) (steps inst0) [] {} ?inst rt"
    by (simp add: run_inv_def completed_writes_def)
  obtain res where w: "while_steps fuel {} ?inst rt = Inr res"
    using assms
    by (cases "while_steps fuel {} ?inst rt")
       (auto simp: execute_workflow_def Let_def simp del: while_steps.simps)
  note wi = while_steps_inv [OF inv0 w]
  show ?thesis
  proof (cases res)
    case (Next st)
    obtain inst1 rt2 where st: "st = (inst1, rt2)" by (cases st)
    let ?fin = "(inst1\<lparr>inst_status := W_COMPLETED, inst_end_time := Some (now rt2)\<rparr>)
               \<lparr>total_execution_time :=
                  (case inst_start_time inst1 of None \<Rightarrow> total_execution_time inst1
                   | Some t \<Rightarrow> Some (now rt2 - t))\<rparr>"
    from wi Next st obtain order c where
      inv: "run_inv (status_writes rt) (inst_id inst0) (steps inst0) order c inst1 rt2"
      and all: "set order = {..<length (steps inst0)}" by auto
    have inv': "run_inv (status_writes rt) (inst_id inst0) (steps inst0) order c ?fin rt2"
      using inv by (simp add: run_inv_def)
    have "x = None \<and> rt1 = rt2 \<and> workflow_instances self1 iid = Some ?fin"
      using assms w Next st
      by (auto simp: execute_workflow_def Let_def simp del: while_steps.simps)
    moreover have "inst_status ?fin = W_COMPLETED" by simp
    ultimately show ?thesis using inv' all by blast
  next
    case (Return st)
    obtain inst1 rt2 where st: "st = (inst1, rt2)" by (cases st)
    from wi Return st obtain c where
      inv: "run_inv (status_writes rt) (inst_id inst0) (steps inst0) [] c inst1 rt2"
      and fl: "inst_status inst1 = W_FAILED" by auto
    have "x = None \<and> rt1 = rt2 \<and> workflow_instances self1 iid = Some inst1"
      using assms w Return st
      by (auto simp: execute_workflow_def Let_def simp del: while_steps.simps)
    then show ?thesis using inv fl by blast
  next
    case (Raise e st)
    obtain inst1 rt2 where st: "st = (inst1, rt2)" by (cases st)
    let ?fin = "inst1\<lparr>inst_status := W_FAILED, inst_end_time := Some (now rt2)\<rparr>"
    from wi Raise st obtain order f where
      fl: "run_fail (status_writes rt) (inst_id inst0) (steps inst0) order f e inst1 rt2" by auto
    have fl': "run_fail (status_writes rt) (inst_id inst0) (steps inst0) order f e ?fin rt2"
      using fl by (simp add: run_fail_def)
    have "x = Some e \<and> rt1 = rt2 \<and> workflow_instances self1 iid = Some ?fin"
      using assms w Raise st
      by (auto simp: execute_workflow_def Let_def simp del: while_steps.simps)
    moreover have "inst_status ?fin = W_FAILED" by simp
    ultimately show ?thesis using fl' by blast
  qed
qed

subsection \<open>What a run leaves behind\<close>

lemma writes_of_append: "writes_of iid i (a @ b) = writes_of iid i a @ writes_of iid i b"
  by (simp add: writes_of_def)

lemma writes_of_step_writes: "writes_of iid i (step_writes iid f v) = (if i = f then [RUNNING, v] else [])"
  by (simp add: writes_of_def step_writes_def)

lemma writes_of_completed:
  "distinct order \<Longrightarrow>
     writes_of iid i (completed_writes iid order) = (if i \<in> set order then [RUNNING, COMPLETED] else [])"
proof (induction order)
  case Nil
  show ?case by (simp add: completed_writes_def writes_of_def)
next
  case (Cons j order)
  have "completed_writes iid (j # order) = step_writes iid j COMPLETED @ completed_writes iid order"
    by (simp add: completed_writes_def)
  then show ?case
    using Cons by (auto simp: writes_of_append writes_of_step_writes)
qed

lemma completed_writes_elem:
  "w \<in> set (completed_writes iid order) \<Longrightarrow>
     fst w = iid \<and> fst (snd w) \<in> set order \<and> snd (snd w) \<noteq> FAILED"
  by (auto simp: completed_writes_def step_writes_def)

lemma failed_write_last:
  assumes "k < length (completed_writes iid order @ step_writes iid f FAILED)"
    and "snd (snd ((completed_writes iid order @ step_writes iid f FAILED) ! k)) = FAILED"
  shows "Suc k = length (completed_writes iid order @ step_writes iid f FAILED)"
proof (cases "k < length (completed_writes iid order)")
  case True
  then have "(completed_writes iid order @ step_writes iid f FAILED) ! k \<in> set (completed_writes iid order)"
    by (simp add: nth_append)
  from completed_writes_elem [OF this] assms(2) show ?thesis by simp
next
  case False
  then obtain d where d: "k = length (completed_writes iid order) + d" by (metis le_add_diff_inverse not_less)
  with assms(1) have "d < 2" by (simp add: step_writes_def)
  then consider "d = 0" | "d = 1" by linarith
  then show ?thesis
  proof cases
    case 1
    with assms(2) d show ?thesis by (simp add: nth_append step_writes_def)
  next
    case 2
    with d show ?thesis by (simp add: step_writes_def)
  qed
qed

lemma execute_workflow_trace:
  assumes "workflow_instances self iid = Some inst0"
    and "execute_workflow fuel iid self rt = Some (x, self1, rt1)"
  shows "\<exists>inst1 ws.
           workflow_instances self1 iid = Some inst1
         \<and> status_writes rt1 = status_writes rt @ ws
         \<and> length (steps inst1) = length (steps inst0)
         \<and> (\<forall>i<length (steps inst0).
               (writes_of (inst_id inst0) i ws = [] \<and> steps inst1 ! i = steps inst0 ! i)
             \<or> (writes_of (inst_id inst0) i ws = [RUNNING, COMPLETED] \<and> step_status (steps inst1 ! i) = COMPLETED)
             \<or> (writes_of (inst_id inst0) i ws = [RUNNING, FAILED] \<and> step_status (steps inst1 ! i) = FAILED
                  \<and> x \<noteq> None \<and> step_error (steps inst1 ! i) = x))
         \<and> (\<forall>w\<in>set ws. fst w = inst_id inst0 \<and> fst (snd w) < length (steps inst0))
         \<and> (\<forall>k<length ws. snd (snd (ws ! k)) = FAILED \<longrightarrow> Suc k = length ws \<and> inst_status inst1 = W_FAILED)
         \<and> (inst_status inst1 = W_COMPLETED \<longrightarrow>
               (\<forall>i<length (steps inst0). step_status (steps inst1 ! i) = COMPLETED))
         \<and> (inst_status inst1 = W_COMPLETED \<or> inst_status inst1 = W_FAILED)
         \<and> (x \<noteq> None \<longrightarrow> inst_status inst1 = W_FAILED
               \<and> (\<exists>f<length (steps inst0). step_status (steps inst1 ! f) = FAILED \<and> step_error (steps inst1 ! f) = x))"
proof -
  let ?iid = "inst_id inst0" and ?n = "length (steps inst0)"
  from execute_workflow_summary [OF assms] obtain inst1 where
    look: "workflow_instances self1 iid = Some inst1"
    and cases: "(x = None \<and> inst_status inst1 = W_COMPLETED
               \<and> (\<exists>order c. run_inv (status_writes rt) ?iid (steps inst0) order c inst1 rt1
                      \<and> set order = {..<?n}))
          \<or> (x = None \<and> inst_status inst1 = W_FAILED
               \<and> (\<exists>c. run_inv (status_writes rt) ?iid (steps inst0) [] c inst1 rt1))
          \<or> (\<exists>e order f. x = Some e \<and> inst_status inst1 = W_FAILED
               \<and> run_fail (status_writes rt) ?iid (steps inst0) order f e inst1 rt1)"
    by blast
  from cases consider
    (finished) order c where "x = None" "inst_status inst1 = W_COMPLETED"
      "run_inv (status_writes rt) ?iid (steps inst0) order c inst1 rt1" "set order = {..<?n}"
  | (stuck) c where "x = None" "inst_status inst1 = W_FAILED"
      "run_inv (status_writes rt) ?iid (steps inst0) [] c inst1 rt1"
  | (raised) e order f where "x = Some e" "inst_status inst1 = W_FAILED"
      "run_fail (status_writes rt) ?iid (steps inst0) order f e inst1 rt1"
    by blast
  then show ?thesis
  proof cases
    case finished
    let ?ws = "completed_writes ?iid order"
    have d: "distinct order" using finished(3) by (simp add: run_inv_def distinct_map)
    have w: "status_writes rt1 = status_writes rt @ ?ws" using finished(3) by (simp add: run_inv_def)
    have l: "length (steps inst1) = ?n" using finished(3) by (simp add: run_inv_def)
    have st: "\<forall>i<?n. step_status (steps inst1 ! i) = COMPLETED"
      using finished(3,4) by (auto simp: run_inv_def)
    have a: "\<forall>i<?n. writes_of ?iid i ?ws = [RUNNING, COMPLETED] \<and> step_status (steps inst1 ! i) = COMPLETED"
      using st finished(4) by (simp add: writes_of_completed [OF d])
    have b: "\<forall>w\<in>set ?ws. fst w = ?iid \<and> fst (snd w) < ?n"
      using completed_writes_elem [of _ ?iid order] finished(4) by auto
    have c: "\<forall>k<length ?ws. snd (snd (?ws ! k)) \<noteq> FAILED"
      using completed_writes_elem [of _ ?iid order] by (metis nth_mem)
    show ?thesis
      using look w l a b c st finished(1,2) by (intro exI [of _ inst1] exI [of _ ?ws]) simp
  next
    case stuck
    have w: "status_writes rt1 = status_writes rt @ []"
      using stuck(3) by (simp add: run_inv_def completed_writes_def)
    have l: "length (steps inst1) = ?n" using stuck(3) by (simp add: run_inv_def)
    have a: "\<forall>i<?n. writes_of ?iid i [] = [] \<and> steps inst1 ! i = steps inst0 ! i"
      using stuck(3) by (simp add: run_inv_def writes_of_def)
    show ?thesis
      using look w l a stuck(1,2) by (intro exI [of _ inst1] exI [of _ "[]"]) simp
  next
    case raised
    let ?ws = "completed_writes ?iid order @ step_writes ?iid f FAILED"
    note rf = raised(3) [unfolded run_fail_def]
    have d: "distinct order" using rf by simp
    have w: "status_writes rt1 = status_writes rt @ ?ws" using rf by simp
    have l: "length (steps inst1) = ?n" using rf by simp
    have f: "f < ?n" "f \<notin> set order" "step_status (steps inst1 ! f) = FAILED"
      "step_error (steps inst1 ! f) = Some e" using rf by simp_all
    have a: "\<forall>i<?n.
               (writes_of ?iid i ?ws = [] \<and> steps inst1 ! i = steps inst0 ! i)
             \<or> (writes_of ?iid i ?ws = [RUNNING, COMPLETED] \<and> step_status (steps inst1 ! i) = COMPLETED)
             \<or> (writes_of ?iid i ?ws = [RUNNING, FAILED] \<and> step_status (steps inst1 ! i) = FAILED
                  \<and> x \<noteq> None \<and> step_error (steps inst1 ! i) = x)"
    proof (intro allI impI)
      fix i assume i: "i < ?n"
      consider "i \<in> set order" | "i = f" | "i \<notin> set order" "i \<noteq> f" by blast
      then show "(writes_of ?iid i ?ws = [] \<and> steps inst1 ! i = steps inst0 ! i)
             \<or> (writes_of ?iid i ?ws = [RUNNING, COMPLETED] \<and> step_status (steps inst1 ! i) = COMPLETED)
             \<or> (writes_of ?iid i ?ws = [RUNNING, FAILED] \<and> step_status (steps inst1 ! i) = FAILED
                  \<and> x \<noteq> None \<and> step_error (steps inst1 ! i) = x)"
      proof cases
        case 1
        then have "i \<noteq> f" using f(2) by auto
        with 1 rf show ?thesis
          by (simp add: writes_of_append writes_of_step_writes writes_of_completed [OF d])
      next
        case 2
        with f raised(1) show ?thesis
          by (simp add: writes_of_append writes_of_step_writes writes_of_completed [OF d])
      next
        case 3
        with i rf show ?thesis
          by (simp add: writes_of_append writes_of_step_writes writes_of_completed [OF d])
      qed
    qed
    have b: "\<forall>w\<in>set ?ws. fst w = ?iid \<and> fst (snd w) < ?n"
    proof
      fix w assume "w \<in> set ?ws"
      then consider "w \<in> set (completed_writes ?iid order)" | "w \<in> set (step_writes ?iid f FAILED)"
        by auto
      then show "fst w = ?iid \<and> fst (snd w) < ?n"
      proof cases
        case 1
        from completed_writes_elem [OF this] rf show ?thesis by auto
      next
        case 2
        then show ?thesis using f(1) by (auto simp: step_writes_def)
      qed
    qed
    have c: "\<forall>k<length ?ws. snd (snd (?ws ! k)) = FAILED \<longrightarrow> Suc k = length ?ws \<and> inst_status inst1 = W_FAILED"
      using failed_write_last [of _ ?iid order f] raised(2) by blast
    have e: "\<exists>f<?n. step_status (steps inst1 ! f) = FAILED \<and> step_error (steps inst1 ! f) = x"
      using f raised(1) by blast
    show ?thesis
      using look w l a b c e raised(1,2) by (intro exI [of _ inst1] exI [of _ ?ws]) simp
  qed
qed

subsection \<open>A call that has not ended\<close>

lemma execute_step_status:
  "execute_step i inst rt = (x, inst', rt') \<Longrightarrow> inst_status inst' = inst_status inst"
  by (auto simp: execute_step_def set_status_def update_step_def finish_step_def Let_def
        split: prod.splits sum.splits if_splits)

lemma scan_steps_status:
  "scan_steps idxs c inst rt = Next (c1, inst1, rt1) \<Longrightarrow> inst_status inst1 = inst_status inst"
proof (induction idxs arbitrary: c inst rt)
  case Nil
  then show ?case by simp
next
  case (Cons i rest)
  show ?case
  proof (cases "step_id (steps inst ! i) \<in> c")
    case True
    with Cons show ?thesis by simp
  next
    case fresh: False
    show ?thesis
    proof (cases "\<forall>dep \<in> set (dependencies (steps inst ! i)). dep \<in> c")
      case False
      with fresh Cons show ?thesis by (auto simp: Let_def)
    next
      case ready: True
      obtain x inst2 rt2 where ex: "execute_step i inst rt = (x, inst2, rt2)"
        by (cases "execute_step i inst rt")
      show ?thesis
      proof (cases x)
        case (Some e)
        with Cons.prems fresh ready ex show ?thesis by (simp add: Let_def)
      next
        case None
        let ?inst3 = "inst2\<lparr>current_step := Some (step_id (steps inst ! i))\<rparr>"
        have "step_status (steps ?inst3 ! i) \<noteq> FAILED"
          using Cons.prems fresh ready ex None by (auto simp: Let_def split: if_splits)
        then have "scan_steps rest (insert (step_id (steps inst ! i)) c) ?inst3 rt2 = Next (c1, inst1, rt1)"
          using Cons.prems fresh ready ex None by (simp add: Let_def)
        from Cons.IH [OF this] execute_step_status [OF ex] show ?thesis by simp
      qed
    qed
  qed
qed

lemma while_steps_running:
  assumes "run_inv W0 iid steps0 order completed inst rt"
    and "while_steps fuel completed inst rt = Inl (c1, inst1, rt1)"
  shows "\<exists>order1. run_inv W0 iid steps0 order1 c1 inst1 rt1 \<and> inst_status inst1 = inst_status inst"
  using assms
proof (induction fuel arbitrary: order completed inst rt)
  case 0
  then show ?case by (auto split: if_splits)
next
  case (Suc n)
  have True: "card completed < length (steps inst)"
    using Suc.prems(2) by (auto split: if_splits)
  have len: "length (steps inst) = length steps0"
    using Suc.prems(1) by (simp add: run_inv_def)
  have idx: "set [0..<length (steps inst)] \<subseteq> {..<length steps0}"
    using len by auto
  note sc = scan_steps_inv [OF Suc.prems(1) idx]
  show ?case
  proof (cases "scan_steps [0..<length (steps inst)] completed inst rt")
    case (Raise e st)
    then show ?thesis using Suc.prems(2) True by (cases st) simp
  next
    case (Return st)
    then show ?thesis using Suc.prems(2) True by (cases st) simp
  next
    case (Next st)
    obtain c2 inst2 rt2 where st: "st = (c2, inst2, rt2)" by (cases st)
    from sc Next st obtain order2 where inv2: "run_inv W0 iid steps0 order2 c2 inst2 rt2"
      by auto
    have nz: "card c2 \<noteq> 0" using Suc.prems(2) True Next st by (auto split: if_splits)
    have r: "while_steps n c2 inst2 (rt2\<lparr>now := now rt2 + 100\<rparr>) = Inl (c1, inst1, rt1)"
      using Suc.prems(2) True Next st nz by simp
    have "run_inv W0 iid steps0 order2 c2 inst2 (rt2\<lparr>now := now rt2 + 100\<rparr>)"
      using inv2 by (simp add: run_inv_def)
    from Suc.IH [OF this r] scan_steps_status [OF Next [unfolded st]] show ?thesis by simp
  qed
qed

lemma execute_workflow_unfinished_iff:
  "workflow_instances self iid = Some inst0 \<Longrightarrow>
     (execute_workflow fuel iid self rt = None) = (execute_workflow_unfinished fuel iid self rt \<noteq> None)"
  by (auto simp: execute_workflow_def execute_workflow_unfinished_def Let_def
        split: sum.splits flow.splits prod.splits simp del: while_steps.simps)

lemma while_steps_running_cond:
  "while_steps fuel completed inst rt = Inl (c1, inst1, rt1) \<Longrightarrow> card c1 < length (steps inst1)"
proof (induction fuel arbitrary: completed inst rt)
  case 0
  then show ?case by (auto split: if_splits)
next
  case (Suc n)
  have c: "card completed < length (steps inst)"
    using Suc.prems by (auto split: if_splits)
  show ?case
  proof (cases "scan_steps [0..<length (steps inst)] completed inst rt")
    case (Raise e st)
    then show ?thesis using Suc.prems c by (cases st) simp
  next
    case (Return st)
    then show ?thesis using Suc.prems c by (cases st) simp
  next
    case (Next st)
    obtain c2 inst2 rt2 where st: "st = (c2, inst2, rt2)" by (cases st)
    have nz: "card c2 \<noteq> 0" using Suc.prems c Next st by (auto split: if_splits)
    have "while_steps n c2 inst2 (rt2\<lparr>now := now rt2 + 100\<rparr>) = Inl (c1, inst1, rt1)"
      using Suc.prems c Next st nz by simp
    from Suc.IH [OF this] show ?thesis .
  qed
qed

lemma while_steps_one_more:
  "while_steps fuel completed inst rt = Inl (c1, inst1, rt1) \<Longrightarrow>
     while_steps (Suc fuel) completed inst rt = while_steps (Suc 0) c1 inst1 rt1"
proof (induction fuel arbitrary: completed inst rt)
  case 0
  then show ?case by (auto split: if_splits)
next
  case (Suc n)
  have c: "card completed < length (steps inst)"
    using Suc.prems by (auto split: if_splits)
  show ?case
  proof (cases "scan_steps [0..<length (steps inst)] completed inst rt")
    case (Raise e st)
    then show ?thesis using Suc.prems c by (cases st) simp
  next
    case (Return st)
    then show ?thesis using Suc.prems c by (cases st) simp
  next
    case (Next st)
    obtain c2 inst2 rt2 where st: "st = (c2, inst2, rt2)" by (cases st)
    have nz: "card c2 \<noteq> 0" using Suc.prems c Next st by (auto split: if_splits)
    have r: "while_steps n c2 inst2 (rt2\<lparr>now := now rt2 + 100\<rparr>) = Inl (c1, inst1, rt1)"
      using Suc.prems c Next st nz by simp
    have "while_steps (Suc (Suc n)) completed inst rt
            = while_steps (Suc n) c2 inst2 (rt2\<lparr>now := now rt2 + 100\<rparr>)"
      using c Next st nz by (subst while_steps.simps) (simp del: while_steps.simps)
    then show ?thesis using Suc.IH [OF r] by simp
  qed
qed

lemma execute_workflow_unfinished_raise:
  assumes "workflow_instances self iid = Some inst0"
    and "execute_workflow_unfinished fuel iid self rt = Some (c1, self1, rt1)"
    and "workflow_instances self1 iid = Some inst1"
    and "scan_steps [0..<length (steps inst1)] c1 inst1 rt1 = Raise e st"
  shows "\<exists>self2 rt2. execute_workflow (Suc fuel) iid self rt = Some (Some e, self2, rt2)"
proof -
  let ?inst = "inst0\<lparr>inst_status := W_RUNNING, inst_start_time := Some (now rt)\<rparr>"
  obtain inst1' where w: "while_steps fuel {} ?inst rt = Inl (c1, inst1', rt1)"
    and s1: "self1 = self\<lparr>workflow_instances := (workflow_instances self)(iid \<mapsto> inst1')\<rparr>"
    using assms(1,2)
    by (auto simp: execute_workflow_unfinished_def Let_def split: sum.splits prod.splits
          simp del: while_steps.simps)
  have eq: "inst1' = inst1" using s1 assms(3) by simp
  obtain c2 inst2 rt2 where st: "st = (c2, inst2, rt2)" by (cases st)
  have "while_steps (Suc 0) c1 inst1 rt1 = Inr (Raise e (inst2, rt2))"
    using while_steps_running_cond [OF w] assms(4) st eq by simp
  then have "while_steps (Suc fuel) {} ?inst rt = Inr (Raise e (inst2, rt2))"
    using while_steps_one_more [OF w] eq by simp
  then show ?thesis
    using assms(1) by (simp add: execute_workflow_def Let_def del: while_steps.simps)
qed

lemma execute_workflow_unfinished_trace:
  assumes "workflow_instances self iid = Some inst0"
    and "execute_workflow_unfinished fuel iid self rt = Some (c1, self1, rt1)"
  shows "\<exists>inst1 ws.
           workflow_instances self1 iid = Some inst1
         \<and> inst_status inst1 = W_RUNNING
         \<and> status_writes rt1 = status_writes rt @ ws
         \<and> length (steps inst1) = length (steps inst0)
         \<and> (\<forall>w\<in>set ws. snd (snd w) \<noteq> FAILED)
         \<and> (\<forall>i<length (steps inst0).
               (writes_of (inst_id inst0) i ws = [] \<and> steps inst1 ! i = steps inst0 ! i)
             \<or> (writes_of (inst_id inst0) i ws = [RUNNING, COMPLETED] \<and> step_status (steps inst1 ! i) = COMPLETED))"
proof -
  let ?inst = "inst0\<lparr>inst_status := W_RUNNING, inst_start_time := Some (now rt)\<rparr>"
  have inv0: "run_inv (status_writes rt) (inst_id inst0) (steps inst0) [] {} ?inst rt"
    by (simp add: run_inv_def completed_writes_def)
  obtain inst1 where w: "while_steps fuel {} ?inst rt = Inl (c1, inst1, rt1)"
    and s1: "self1 = self\<lparr>workflow_instances := (workflow_instances self)(iid \<mapsto> inst1)\<rparr>"
    using assms
    by (auto simp: execute_workflow_unfinished_def Let_def split: sum.splits prod.splits
          simp del: while_steps.simps)
  from while_steps_running [OF inv0 w] obtain order where
    inv: "run_inv (status_writes rt) (inst_id inst0) (steps inst0) order c1 inst1 rt1"
    and st: "inst_status inst1 = W_RUNNING" by auto
  let ?ws = "completed_writes (inst_id inst0) order"
  have d: "distinct order" using inv by (simp add: run_inv_def distinct_map)
  have a: "\<forall>i<length (steps inst0).
               (writes_of (inst_id inst0) i ?ws = [] \<and> steps inst1 ! i = steps inst0 ! i)
             \<or> (writes_of (inst_id inst0) i ?ws = [RUNNING, COMPLETED] \<and> step_status (steps inst1 ! i) = COMPLETED)"
    using inv by (auto simp: run_inv_def writes_of_completed [OF d])
  have b: "\<forall>w\<in>set ?ws. snd (snd w) \<noteq> FAILED"
    using completed_writes_elem [of _ "inst_id inst0" order] by blast
  have "workflow_instances self1 iid = Some inst1" using s1 by simp
  moreover have "status_writes rt1 = status_writes rt @ ?ws" using inv by (simp add: run_inv_def)
  moreover have "length (steps inst1) = length (steps inst0)" using inv by (simp add: run_inv_def)
  ultimately show ?thesis using st a b by blast
qed

subsection \<open>The claims about the engine\<close>

lemmas engine_scenario_defs = new_step_def engine_with_def rt0_def started_def cyclic_steps_def
  failing_steps_def late_failing_steps_def chain_steps_def copy_step_def start_workflow_def

lemmas engine_defs = execute_workflow_def execute_step_def set_status_def update_step_def
  finish_step_def known_step_types_def Let_def

lemma started_instance:
  "workflow_instances (fst (started ss)) ''i'' =
     Some \<lparr>inst_id = ''i'', workflow_name = ''w'', inst_parameters = JObj [],
           steps = map copy_step ss, inst_status = W_PENDING, current_step = None,
           inst_start_time = None, inst_end_time = None, total_execution_time = None\<rparr>"
  "status_writes (snd (started ss)) = []"
  by (simp_all add: started_def start_workflow_def engine_with_def rt0_def Let_def)

lemma failing_run:
  "\<exists>self1 rt1. execute_workflow 5 ''i'' (fst (started failing_steps)) (snd (started failing_steps))
       = Some (Some (UnsupportedStepType ''bogus''), self1, rt1)
     \<and> status_writes rt1 = [(''i'', 0, RUNNING), (''i'', 0, COMPLETED), (''i'', 1, RUNNING), (''i'', 1, FAILED)]"
  by (simp add: engine_scenario_defs engine_defs)


lemma stuck_steps:
  assumes "steps inst = [a, b, c]" and "step_id a = ''s1''"
    and "step_id b = ''s2''" and "dependencies b = [''s3'']"
    and "step_id c = ''s3''" and "dependencies c = [''s2'']"
  shows "while_steps fuel {''s1''} inst rt = Inl ({''s1''}, inst, rt\<lparr>now := now rt + 100 * int fuel\<rparr>)"
proof (induction fuel arbitrary: rt)
  case 0
  show ?case using assms by simp
next
  case (Suc n)
  have sc: "scan_steps [0..<length (steps inst)] {''s1''} inst rt = Next ({''s1''}, inst, rt)"
    using assms by (simp add: Let_def)
  show ?case
    using assms(1) sc Suc.IH
    by (subst while_steps.simps) (simp add: algebra_simps del: while_steps.simps)
qed

lemma stuck_loop:
  assumes "map step_id (steps inst) = [''s1'', ''s2'', ''s3'']"
    and "map dependencies (steps inst) = [[], [''s3''], [''s2'']]"
  shows "while_steps fuel {''s1''} inst rt = Inl ({''s1''}, inst, rt\<lparr>now := now rt + 100 * int fuel\<rparr>)"
proof -
  from assms(1) obtain a b c where s: "steps inst = [a, b, c]"
    by (auto simp: map_eq_Cons_conv)
  show ?thesis
    using assms by (intro stuck_steps [OF s]) (simp_all add: s)
qed

lemma cyclic_run_unfinished:
  "execute_workflow fuel ''i'' (fst (started cyclic_steps)) (snd (started cyclic_steps)) = None"
proof (cases fuel)
  case 0
  then show ?thesis by (simp add: engine_scenario_defs engine_defs)
next
  case (Suc n)
  show ?thesis
    unfolding Suc execute_workflow_def
    by (subst while_steps.simps)
       (simp add: engine_scenario_defs engine_defs stuck_loop del: while_steps.simps)
qed

text \<open>
  Claim C1 at a failing input. The instance has the steps \<open>s1\<close> (no dependency),
  \<open>s2\<close> (depends on \<open>s3\<close>) and \<open>s3\<close> (depends on \<open>s2\<close>). The first pass executes
  \<open>s1\<close>; from then on no pass finds a step to execute, and the guard
  \<open>len(completed_steps) == 0\<close> no longer holds, so the loop goes on: whatever the
  number of passes allowed, \<open>execute_workflow\<close> has not returned.
\<close>

theorem C1_cycle_behind_progress_never_returns:
  "execute_workflow fuel ''i'' (fst (started cyclic_steps)) (snd (started cyclic_steps)) = None"
  by (rule cyclic_run_unfinished)

text \<open>
  Claim C8. Take a call of \<open>execute_workflow\<close> on an instance, and any number of
  passes of its loop. Either the call has ended by then. In that case an assignment
  of \<open>FAILED\<close> to a step is the last assignment of the run to any step (nothing is
  dispatched after it), that step is \<open>FAILED\<close> and the instance is \<open>W_FAILED\<close>; every
  step the run has not assigned a status to is exactly as it was before, so a
  pending step is still pending; and the instance is \<open>W_COMPLETED\<close> only if each
  of its steps is \<open>COMPLETED\<close>. Or the call is still in its loop. In that case the
  instance is \<open>W_RUNNING\<close> and the run has assigned \<open>FAILED\<close> to no step; and if the
  next pass dispatches a step that raises, the call ends in that pass, with that
  exception: a step that fails ends the call in the pass in which it fails.
\<close>

theorem C8_fail_fast:
  assumes "workflow_instances self iid = Some inst0"
  shows "(\<forall>x self1 rt1. execute_workflow fuel iid self rt = Some (x, self1, rt1) \<longrightarrow>
            (\<exists>inst1 ws.
               workflow_instances self1 iid = Some inst1
             \<and> status_writes rt1 = status_writes rt @ ws
             \<and> length (steps inst1) = length (steps inst0)
             \<and> (\<forall>k<length ws. snd (snd (ws ! k)) = FAILED \<longrightarrow> Suc k = length ws \<and> inst_status inst1 = W_FAILED)
             \<and> (\<forall>i<length (steps inst0). FAILED \<in> set (writes_of (inst_id inst0) i ws) \<longrightarrow>
                    step_status (steps inst1 ! i) = FAILED)
             \<and> (\<forall>i<length (steps inst0). writes_of (inst_id inst0) i ws = [] \<longrightarrow> steps inst1 ! i = steps inst0 ! i)
             \<and> (inst_status inst1 = W_COMPLETED \<longrightarrow> (\<forall>s\<in>set (steps inst1). step_status s = COMPLETED))))
       \<and> (execute_workflow fuel iid self rt = None \<longrightarrow>
            (\<exists>c1 self1 rt1 inst1 ws.
               execute_workflow_unfinished fuel iid self rt = Some (c1, self1, rt1)
             \<and> workflow_instances self1 iid = Some inst1
             \<and> inst_status inst1 = W_RUNNING
             \<and> status_writes rt1 = status_writes rt @ ws
             \<and> (\<forall>w\<in>set ws. snd (snd w) \<noteq> FAILED)
             \<and> length (steps inst1) = length (steps inst0)
             \<and> (\<forall>i<length (steps inst0). step_status (steps inst1 ! i) = FAILED \<longrightarrow>
                    steps inst1 ! i = steps inst0 ! i)
             \<and> (\<forall>e st. scan_steps [0..<length (steps inst1)] c1 inst1 rt1 = Raise e st \<longrightarrow>
                    (\<exists>self2 rt2. execute_workflow (Suc fuel) iid self rt = Some (Some e, self2, rt2)))))"
proof (intro conjI allI impI)
  fix x self1 rt1
  assume ex: "execute_workflow fuel iid self rt = Some (x, self1, rt1)"
  from execute_workflow_trace [OF assms ex] obtain inst1 ws where
    a: "workflow_instances self1 iid = Some inst1" "status_writes rt1 = status_writes rt @ ws"
      "length (steps inst1) = length (steps inst0)"
    and b: "\<forall>i<length (steps inst0).
               (writes_of (inst_id inst0) i ws = [] \<and> steps inst1 ! i = steps inst0 ! i)
             \<or> (writes_of (inst_id inst0) i ws = [RUNNING, COMPLETED] \<and> step_status (steps inst1 ! i) = COMPLETED)
             \<or> (writes_of (inst_id inst0) i ws = [RUNNING, FAILED] \<and> step_status (steps inst1 ! i) = FAILED
                  \<and> x \<noteq> None \<and> step_error (steps inst1 ! i) = x)"
    and c: "\<forall>k<length ws. snd (snd (ws ! k)) = FAILED \<longrightarrow> Suc k = length ws \<and> inst_status inst1 = W_FAILED"
    and d: "inst_status inst1 = W_COMPLETED \<longrightarrow>
               (\<forall>i<length (steps inst0). step_status (steps inst1 ! i) = COMPLETED)"
    by blast
  have b1: "\<forall>i<length (steps inst0). FAILED \<in> set (writes_of (inst_id inst0) i ws) \<longrightarrow>
                    step_status (steps inst1 ! i) = FAILED"
    using b by fastforce
  have b2: "\<forall>i<length (steps inst0). writes_of (inst_id inst0) i ws = [] \<longrightarrow> steps inst1 ! i = steps inst0 ! i"
    using b by fastforce
  have d': "inst_status inst1 = W_COMPLETED \<longrightarrow> (\<forall>s\<in>set (steps inst1). step_status s = COMPLETED)"
    using d a(3) by (auto simp: in_set_conv_nth)
  show "\<exists>inst1 ws.
               workflow_instances self1 iid = Some inst1
             \<and> status_writes rt1 = status_writes rt @ ws
             \<and> length (steps inst1) = length (steps inst0)
             \<and> (\<forall>k<length ws. snd (snd (ws ! k)) = FAILED \<longrightarrow> Suc k = length ws \<and> inst_status inst1 = W_FAILED)
             \<and> (\<forall>i<length (steps inst0). FAILED \<in> set (writes_of (inst_id inst0) i ws) \<longrightarrow>
                    step_status (steps inst1 ! i) = FAILED)
             \<and> (\<forall>i<length (steps inst0). writes_of (inst_id inst0) i ws = [] \<longrightarrow> steps inst1 ! i = steps inst0 ! i)
             \<and> (inst_status inst1 = W_COMPLETED \<longrightarrow> (\<forall>s\<in>set (steps inst1). step_status s = COMPLETED))"
    using a b1 b2 c d' by blast
next
  assume "execute_workflow fuel iid self rt = None"
  then obtain c1 self1 rt1 where u: "execute_workflow_unfinished fuel iid self rt = Some (c1, self1, rt1)"
    using execute_workflow_unfinished_iff [OF assms, of fuel rt] by auto
  from execute_workflow_unfinished_trace [OF assms u] obtain inst1 ws where
    a: "workflow_instances self1 iid = Some inst1" "inst_status inst1 = W_RUNNING"
      "status_writes rt1 = status_writes rt @ ws" "length (steps inst1) = length (steps inst0)"
      "\<forall>w\<in>set ws. snd (snd w) \<noteq> FAILED"
    and b: "\<forall>i<length (steps inst0).
               (writes_of (inst_id inst0) i ws = [] \<and> steps inst1 ! i = steps inst0 ! i)
             \<or> (writes_of (inst_id inst0) i ws = [RUNNING, COMPLETED] \<and> step_status (steps inst1 ! i) = COMPLETED)"
    by blast
  have b': "\<forall>i<length (steps inst0). step_status (steps inst1 ! i) = FAILED \<longrightarrow>
                    steps inst1 ! i = steps inst0 ! i"
    using b by fastforce
  have r: "\<forall>e st. scan_steps [0..<length (steps inst1)] c1 inst1 rt1 = Raise e st \<longrightarrow>
                    (\<exists>self2 rt2. execute_workflow (Suc fuel) iid self rt = Some (Some e, self2, rt2))"
    using execute_workflow_unfinished_raise [OF assms u a(1)] by blast
  show "\<exists>c1 self1 rt1 inst1 ws.
               execute_workflow_unfinished fuel iid self rt = Some (c1, self1, rt1)
             \<and> workflow_instances self1 iid = Some inst1
             \<and> inst_status inst1 = W_RUNNING
             \<and> status_writes rt1 = status_writes rt @ ws
             \<and> (\<forall>w\<in>set ws. snd (snd w) \<noteq> FAILED)
             \<and> length (steps inst1) = length (steps inst0)
             \<and> (\<forall>i<length (steps inst0). step_status (steps inst1 ! i) = FAILED \<longrightarrow>
                    steps inst1 ! i = steps inst0 ! i)
             \<and> (\<forall>e st. scan_steps [0..<length (steps inst1)] c1 inst1 rt1 = Raise e st \<longrightarrow>
                    (\<exists>self2 rt2. execute_workflow (Suc fuel) iid self rt = Some (Some e, self2, rt2)))"
    using u a b' r by blast
qed

text \<open>The second of three steps fails: the call ends, the instance is failed, the
  step is failed and the third step is still pending. A step that the second pass
  reaches and that raises: after one pass the call is still in its loop with the
  instance running, and the second pass ends it with the exception.\<close>

theorem C8_fail_fast_witness:
  "(\<exists>self1 rt1 inst1.
      execute_workflow 5 ''i'' (fst (started failing_steps)) (snd (started failing_steps))
        = Some (Some (UnsupportedStepType ''bogus''), self1, rt1)
    \<and> workflow_instances self1 ''i'' = Some inst1
    \<and> inst_status inst1 = W_FAILED
    \<and> step_status (steps inst1 ! 1) = FAILED
    \<and> step_status (steps inst1 ! 2) = PENDING)
   \<and> (\<exists>c1 self1 rt1 inst1 self2 rt2.
      execute_workflow 1 ''i'' (fst (started late_failing_steps)) (snd (started late_failing_steps)) = None
    \<and> execute_workflow_unfinished 1 ''i'' (fst (started late_failing_steps)) (snd (started late_failing_steps))
        = Some (c1, self1, rt1)
    \<and> workflow_instances self1 ''i'' = Some inst1
    \<and> inst_status inst1 = W_RUNNING
    \<and> execute_workflow 2 ''i'' (fst (started late_failing_steps)) (snd (started late_failing_steps))
        = Some (Some (UnsupportedStepType ''bogus''), self2, rt2))"
proof -
  from failing_run obtain self1 rt1 where
    ex: "execute_workflow 5 ''i'' (fst (started failing_steps)) (snd (started failing_steps))
       = Some (Some (UnsupportedStepType ''bogus''), self1, rt1)"
    and sw: "status_writes rt1 = [(''i'', 0, RUNNING), (''i'', 0, COMPLETED), (''i'', 1, RUNNING), (''i'', 1, FAILED)]"
    by blast
  let ?inst0 = "\<lparr>inst_id = ''i'', workflow_name = ''w'', inst_parameters = JObj [],
           steps = map copy_step failing_steps, inst_status = W_PENDING, current_step = None,
           inst_start_time = None, inst_end_time = None, total_execution_time = None\<rparr>"
  from C8_fail_fast [OF started_instance(1) [of failing_steps], of 5 "snd (started failing_steps)"] ex
  obtain inst1 ws where
    a: "workflow_instances self1 ''i'' = Some inst1"
    and w: "status_writes rt1 = status_writes (snd (started failing_steps)) @ ws"
    and f: "\<forall>k<length ws. snd (snd (ws ! k)) = FAILED \<longrightarrow> Suc k = length ws \<and> inst_status inst1 = W_FAILED"
    and g: "\<forall>i<length (steps ?inst0). FAILED \<in> set (writes_of (inst_id ?inst0) i ws) \<longrightarrow>
                    step_status (steps inst1 ! i) = FAILED"
    and u: "\<forall>i<length (steps ?inst0). writes_of (inst_id ?inst0) i ws = [] \<longrightarrow> steps inst1 ! i = steps ?inst0 ! i"
    by blast
  have ws: "ws = [(''i'', 0, RUNNING), (''i'', 0, COMPLETED), (''i'', 1, RUNNING), (''i'', 1, FAILED)]"
    using w sw by (simp add: started_instance(2))
  have 1: "inst_status inst1 = W_FAILED"
    using f [rule_format, of 3] by (simp add: ws)
  have 2: "step_status (steps inst1 ! 1) = FAILED"
    using g [rule_format, of 1] by (simp add: ws writes_of_def failing_steps_def)
  have "steps inst1 ! 2 = steps ?inst0 ! 2"
    using u [rule_format, of 2] by (simp add: ws writes_of_def failing_steps_def)
  then have 3: "step_status (steps inst1 ! 2) = PENDING"
    by (simp add: failing_steps_def copy_step_def)
  have n: "execute_workflow 1 ''i'' (fst (started late_failing_steps)) (snd (started late_failing_steps)) = None"
    by (simp add: engine_scenario_defs engine_defs)
  from C8_fail_fast [OF started_instance(1) [of late_failing_steps], of 1 "snd (started late_failing_steps)"] n
  obtain c2 self2 rt2 inst2 where
    b: "execute_workflow_unfinished 1 ''i'' (fst (started late_failing_steps)) (snd (started late_failing_steps))
        = Some (c2, self2, rt2)" "workflow_instances self2 ''i'' = Some inst2" "inst_status inst2 = W_RUNNING"
    and r: "\<forall>e st. scan_steps [0..<length (steps inst2)] c2 inst2 rt2 = Raise e st \<longrightarrow>
              (\<exists>self3 rt3. execute_workflow (Suc 1) ''i'' (fst (started late_failing_steps)) (snd (started late_failing_steps))
                   = Some (Some e, self3, rt3))"
    by blast
  have "\<exists>st. scan_steps [0..<length (steps inst2)] c2 inst2 rt2 = Raise (UnsupportedStepType ''bogus'') st"
    using b(1,2)
    by (auto simp: execute_workflow_unfinished_def engine_scenario_defs engine_defs)
  with r obtain self3 rt3 where
    "execute_workflow (Suc 1) ''i'' (fst (started late_failing_steps)) (snd (started late_failing_steps))
       = Some (Some (UnsupportedStepType ''bogus''), self3, rt3)" by blast
  then have 4: "execute_workflow 2 ''i'' (fst (started late_failing_steps)) (snd (started late_failing_steps))
       = Some (Some (UnsupportedStepType ''bogus''), self3, rt3)"
    by (simp add: numeral_2_eq_2)
  show ?thesis using ex a 1 2 3 n b 4 by blast
qed




text \<open>
  Claim C6, as the code has it. \<open>call_service\<close> always returns a result. An
  exception leaves \<open>execute_workflow\<close> in two cases only: the \<open>ValueError\<close> for an
  instance id that is not known, with nothing changed, and the exception of a step
  that failed, re-raised after that step has been marked \<open>FAILED\<close> with the
  exception as its error and the instance \<open>W_FAILED\<close>. No exception leaves
  \<open>execute_workflow_background\<close>, the wrapper the API schedules.
\<close>

theorem C6_exceptions:
  "(\<exists>r s n. call_service sname tname ps tmo client net = (Inr r, s, n))
   \<and> (\<forall>e self1 rt1. execute_workflow fuel iid self rt = Some (Some e, self1, rt1) \<longrightarrow>
          (workflow_instances self iid = None \<and> e = UnknownInstance iid \<and> self1 = self \<and> rt1 = rt)
        \<or> (\<exists>inst1 f. workflow_instances self1 iid = Some inst1 \<and> inst_status inst1 = W_FAILED
               \<and> f < length (steps inst1) \<and> step_status (steps inst1 ! f) = FAILED
               \<and> step_error (steps inst1 ! f) = Some e))
   \<and> (\<forall>x self1 rt1. execute_workflow_background fuel iid self rt = Some (x, self1, rt1) \<longrightarrow> x = None)"
proof (intro conjI allI impI)
  show "\<exists>r s n. call_service sname tname ps tmo client net = (Inr r, s, n)"
    by (rule call_service_returns)
next
  fix e self1 rt1
  assume ex: "execute_workflow fuel iid self rt = Some (Some e, self1, rt1)"
  show "(workflow_instances self iid = None \<and> e = UnknownInstance iid \<and> self1 = self \<and> rt1 = rt)
        \<or> (\<exists>inst1 f. workflow_instances self1 iid = Some inst1 \<and> inst_status inst1 = W_FAILED
               \<and> f < length (steps inst1) \<and> step_status (steps inst1 ! f) = FAILED
               \<and> step_error (steps inst1 ! f) = Some e)"
  proof (cases "workflow_instances self iid")
    case None
    with ex show ?thesis by (simp add: execute_workflow_def)
  next
    case (Some inst0)
    from execute_workflow_trace [OF Some ex] obtain inst1 where
      "workflow_instances self1 iid = Some inst1" "length (steps inst1) = length (steps inst0)"
      "inst_status inst1 = W_FAILED"
      "\<exists>f<length (steps inst0). step_status (steps inst1 ! f) = FAILED \<and> step_error (steps inst1 ! f) = Some e"
      by auto
    then show ?thesis by auto
  qed
next
  fix x self1 rt1
  assume "execute_workflow_background fuel iid self rt = Some (x, self1, rt1)"
  then show "x = None"
    by (auto simp: execute_workflow_background_def split: option.splits prod.splits)
qed

text \<open>A step of unknown type: the exception leaves \<open>execute_workflow\<close> and is
  absorbed by \<open>execute_workflow_background\<close>.\<close>

theorem C6_exceptions_witness:
  "(\<exists>r s n. call_service ''c'' ''t'' JNull None client_ab net_immediate = (Inr r, s, n))
   \<and> (\<exists>self1 rt1 inst1 f.
         execute_workflow 5 ''i'' (fst (started failing_steps)) (snd (started failing_steps))
           = Some (Some (UnsupportedStepType ''bogus''), self1, rt1)
       \<and> workflow_instances self1 ''i'' = Some inst1 \<and> inst_status inst1 = W_FAILED
       \<and> f < length (steps inst1) \<and> step_status (steps inst1 ! f) = FAILED
       \<and> step_error (steps inst1 ! f) = Some (UnsupportedStepType ''bogus''))
   \<and> map_option fst (execute_workflow_background 5 ''i'' (fst (started failing_steps)) (snd (started failing_steps)))
       = Some None"
proof -
  note th = C6_exceptions [of "''c''" "''t''" JNull None client_ab net_immediate 5 "''i''"
      "fst (started failing_steps)" "snd (started failing_steps)"]
  from failing_run obtain self1 rt1 where
    ex: "execute_workflow 5 ''i'' (fst (started failing_steps)) (snd (started failing_steps))
       = Some (Some (UnsupportedStepType ''bogus''), self1, rt1)"
    by blast
  have some: "workflow_instances (fst (started failing_steps)) ''i'' \<noteq> None"
    by (simp add: started_instance(1))
  from th ex some have 2: "\<exists>inst1 f. workflow_instances self1 ''i'' = Some inst1 \<and> inst_status inst1 = W_FAILED
               \<and> f < length (steps inst1) \<and> step_status (steps inst1 ! f) = FAILED
               \<and> step_error (steps inst1 ! f) = Some (UnsupportedStepType ''bogus'')"
    by blast
  have "\<exists>x self2 rt2. execute_workflow_background 5 ''i'' (fst (started failing_steps)) (snd (started failing_steps))
       = Some (x, self2, rt2)"
    using ex by (cases "workflow_instances self1 ''i''") (simp_all add: execute_workflow_background_def)
  then obtain x self2 rt2 where
    bg: "execute_workflow_background 5 ''i'' (fst (started failing_steps)) (snd (started failing_steps))
       = Some (x, self2, rt2)"
    by blast
  with th have "x = None" by blast
  with bg have 3: "map_option fst (execute_workflow_background 5 ''i'' (fst (started failing_steps)) (snd (started failing_steps)))
       = Some None" by simp
  from th have 1: "\<exists>r s n. call_service ''c'' ''t'' JNull None client_ab net_immediate = (Inr r, s, n)"
    by blast
  show ?thesis using 1 2 3 ex by blast
qed

text \<open>
  Exceptions do leave \<open>execute_workflow\<close>: for an unknown instance id, and for a
  step whose type the engine does not support.
\<close>

theorem C6_counterexample:
  "execute_workflow 1 ''nope'' (engine_with []) rt0
     = Some (Some (UnknownInstance ''nope''), engine_with [], rt0)
   \<and> map_option fst (execute_workflow 5 ''i'' (fst (started failing_steps)) (snd (started failing_steps)))
     = Some (Some (UnsupportedStepType ''bogus''))"
  by (simp add: engine_scenario_defs engine_defs)

end
